theory Spec2Isabelle
  imports Complex_Main
begin

section \<open>Instants, durations and locations\<close>

text \<open>
  The program works on Go's \<^verbatim>\<open>time.Time\<close> and \<^verbatim>\<open>time.Duration\<close>. A duration is a count of
  nanoseconds. A time is an instant, kept here as the nanoseconds elapsed since the Unix
  epoch (Go keeps whole seconds and a nanosecond part in 0..999999999, which is the floor
  division and remainder of this number), together with the location whose rules give the
  civil reading of the instant. The location's rule table (the installed time-zone data
  base) is outside the repository: a location is taken as the lookup function from Unix
  seconds to the zone in force, with the zone's name, its offset east of UTC in seconds and
  the Unix seconds between which it is in force.
\<close>

type_synonym Duration = int

definition Nanosecond :: Duration where "Nanosecond = 1"
definition Second :: Duration where "Second = 1000000000 * Nanosecond"
definition Minute :: Duration where "Minute = 60 * Second"
definition Hour :: Duration where "Hour = 60 * Minute"

definition minDuration :: Duration where "minDuration = - (2 ^ 63)"
definition maxDuration :: Duration where "maxDuration = 2 ^ 63 - 1"

record zoneInfo =
  zName :: string
  zOffset :: int
  zStart :: int
  zEnd :: int

type_synonym Location = "int \<Rightarrow> zoneInfo"

record Time =
  unixNano :: int
  loc :: Location

definition unixSec :: "Time \<Rightarrow> int" where
  "unixSec t = unixNano t div 1000000000"

text \<open>Seconds from January 1 of year 1, 00:00 UTC (Go's zero time) to the Unix epoch.\<close>

definition unixToInternal :: int where
  "unixToInternal = 62135596800"

definition UTC :: Location where
  "UTC s = \<lparr>zName = ''UTC'', zOffset = 0, zStart = - (2 ^ 63), zEnd = 2 ^ 63 - 1\<rparr>"

text \<open>The zero value of \<^verbatim>\<open>time.Time\<close>, which \<^verbatim>\<open>var lastTs time.Time\<close> declares.\<close>

definition zeroTime :: Time where
  "zeroTime = \<lparr>unixNano = - unixToInternal * 1000000000, loc = UTC\<rparr>"

definition IsZero :: "Time \<Rightarrow> bool" where
  "IsZero t = (unixNano t = - unixToInternal * 1000000000)"

definition Equal :: "Time \<Rightarrow> Time \<Rightarrow> bool" where
  "Equal t u = (unixNano t = unixNano u)"

definition Add :: "Time \<Rightarrow> Duration \<Rightarrow> Time" where
  "Add t d = t\<lparr>unixNano := unixNano t + d\<rparr>"

text \<open>\<^verbatim>\<open>t.Sub(u)\<close> saturates at the ends of the 64-bit duration range.\<close>

definition Sub :: "Time \<Rightarrow> Time \<Rightarrow> Duration" where
  "Sub t u =
     (let d = unixNano t - unixNano u
      in if d < minDuration then minDuration
         else if maxDuration < d then maxDuration
         else d)"

text \<open>
  \<^verbatim>\<open>d.Minutes()\<close> returns a float64: the whole minutes plus the remaining nanoseconds
  over the nanoseconds of a minute. The model returns the exact quotient. The program only
  compares the result with 30 and with 0, and on those comparisons the float64 and the
  exact quotient agree: a duration has fewer than 64 bits, the double nearest below 30 is
  closer to it than one nanosecond's worth of minutes, and no positive duration rounds
  to 0.
\<close>

definition Minutes :: "Duration \<Rightarrow> real" where
  "Minutes d = of_int d / of_int Minute"

definition Zone :: "Time \<Rightarrow> string \<times> int" where
  "Zone t = (let z = loc t (unixSec t) in (zName z, zOffset z))"

text \<open>The clock reading of an instant in its location.\<close>

definition localSec :: "Time \<Rightarrow> int" where
  "localSec t = unixSec t + snd (Zone t)"

definition Time_Minute :: "Time \<Rightarrow> int" where
  "Time_Minute t = (localSec t mod 3600) div 60"

definition Time_Second :: "Time \<Rightarrow> int" where
  "Time_Second t = localSec t mod 60"

definition Time_Nanosecond :: "Time \<Rightarrow> int" where
  "Time_Nanosecond t = unixNano t mod 1000000000"

text \<open>
  \<^verbatim>\<open>t.Round(d)\<close> rounds the time elapsed since the zero time to a multiple of \<open>d\<close>, halves
  going up; it does not look at the location.
\<close>

definition Round :: "Time \<Rightarrow> Duration \<Rightarrow> Time" where
  "Round t d =
     (if d \<le> 0 then t
      else let r = (unixNano t + unixToInternal * 1000000000) mod d
           in if r + r < d then Add t (- r) else Add t (d - r))"

section \<open>The parsed file and the statistics\<close>

text \<open>
  Readings carry a float64 value. The program never compares values; it halves them and
  adds them up. The value type is left open: any type with a zero and an addition, no law
  assumed of either, and the halving passed as a function.
\<close>

record 'v Read =
  Value :: 'v
  EndTime :: Time

record 'v Result =
  MPRN :: string
  MeterSerialNumber :: string
  ReadTypes :: string
  Reads :: "'v Read list"

text \<open>
  The statistics types belong to the package \<^verbatim>\<open>ha\<close>; the fields are those the translation
  sets.
\<close>

record StatisticMetadata =
  HasSum :: bool
  UnitOfMeasurement :: string

record 'v StatisticValue =
  Start :: Time
  State :: 'v
  Sum :: 'v

record 'v Statistics =
  Metadata :: StatisticMetadata
  Stats :: "'v StatisticValue list"

datatype error =
    ErrHeaderRead
  | ErrHeaderLength nat nat
  | ErrHeaderField nat string string
  | ErrCsv
  | ErrReadType nat string string
  | ErrParseValue nat
  | ErrParseTime nat
  | ErrMultipleMPRN string string
  | ErrMultipleSerial string string
  | ErrNotAligned Time
  | ErrNotSorted Time Time
  | ErrNotEnoughData
  | ErrIncrement nat real Time Time

text \<open>A call either returns or stops the program with a run-time panic.\<close>

datatype 'a outcome = Panic | Return 'a

section \<open>Translate\<close>

definition isRound :: "Time \<Rightarrow> bool" where
  "isRound t = Equal (Round t Hour) t"

text \<open>
  The loop \<^verbatim>\<open>for i, r := range reads\<close> of \<^verbatim>\<open>Translate\<close>: \<open>all\<close> is the slice ranged over,
  \<open>i\<close> the index of the head of the part still to visit, then the validator timestamp,
  the accumulator \<^verbatim>\<open>sum\<close>, the current hour's \<^verbatim>\<open>value\<close> and the statistics built so far. The read \<^verbatim>\<open>reads[i-1]\<close> is made only
  where \<open>0 < i\<close>.
\<close>

fun translateLoop ::
  "('v \<Rightarrow> 'v) \<Rightarrow> 'v Read list \<Rightarrow> nat \<Rightarrow> 'v Read list \<Rightarrow> Time \<Rightarrow> 'v \<Rightarrow> 'v
     \<Rightarrow> ('v::{zero,plus}) Statistics \<Rightarrow> 'v Statistics \<times> error option" where
  "translateLoop half all i [] tsValidator sumAcc val ret = (ret, None)"
| "translateLoop half all i (r # rs) tsValidator sumAcc val ret =
     (let mins = Minutes (Sub (EndTime r) tsValidator)
      in if mins \<noteq> 30 then (ret, Some (ErrIncrement i mins tsValidator (EndTime r)))
         else
           let tsValidator = EndTime r;
               val = val + half (Value r)
           in if i mod 2 = 0 \<and> 0 < i
              then let sumAcc = sumAcc + val;
                       ret = ret\<lparr>Stats := Stats ret @
                               [\<lparr>Start = EndTime (all ! (i - 1)), State = val, Sum = sumAcc\<rparr>]\<rparr>
                   in translateLoop half all (i + 1) rs tsValidator sumAcc 0 ret
              else translateLoop half all (i + 1) rs tsValidator sumAcc val ret)"

definition Translate ::
  "('v \<Rightarrow> 'v) \<Rightarrow> ('v::{zero,plus}) Result \<Rightarrow> ('v Statistics \<times> error option) outcome" where
  "Translate half raw =
     (let ret = \<lparr>Metadata = \<lparr>HasSum = True, UnitOfMeasurement = ''kWh''\<rparr>, Stats = []\<rparr>;
          reads = Reads raw
      in if length reads = 0 then Return (ret, Some ErrNotEnoughData)
         else
           let reads = (if 0 < length reads \<and> isRound (EndTime (reads ! 0))
                        then drop 1 reads else reads)
           in case reads of
                [] \<Rightarrow> Panic
              | r0 # _ \<Rightarrow>
                  Return (translateLoop half reads 0 reads
                            (Add (EndTime r0) (- 30 * Minute)) 0 0 ret))"

section \<open>Reading the file\<close>

definition wantReadType :: string where
  "wantReadType = ''Active Import Interval (kW)''"

definition headerFormat :: "string list" where
  "headerFormat =
     [''MPRN'', ''Meter Serial Number'', ''Read Value'', ''Read Type'',
      ''Read Date and End Time'']"

text \<open>
  The file is read through \<^verbatim>\<open>encoding/csv\<close>, which is outside the repository. Its reader
  hands out one record (a list of fields) per call and ends with \<^verbatim>\<open>io.EOF\<close>. A call fails
  on a line it cannot split, and, with the default \<^verbatim>\<open>FieldsPerRecord = 0\<close>, on a record
  whose number of fields differs from that of the first record of the file. The input of
  the model is the file as the reader sees it, line by line: the fields of a line, or a line
  that cannot be split. \<open>csvRecord\<close> is one successful or failed call, given the field count
  expected so far (0 before the first record).
\<close>

datatype csvLine = Fields "string list" | Malformed

definition csvRecord :: "nat \<Rightarrow> csvLine \<Rightarrow> (string list \<times> nat) option" where
  "csvRecord fieldsPerRecord l =
     (case l of
        Malformed \<Rightarrow> None
      | Fields fs \<Rightarrow>
          if 0 < fieldsPerRecord then
            (if length fs \<noteq> fieldsPerRecord then None else Some (fs, fieldsPerRecord))
          else Some (fs, length fs))"

text \<open>The loop of \<^verbatim>\<open>validateHeader\<close> over \<^verbatim>\<open>headerFormat\<close>, index and wanted name.\<close>

fun checkHeader :: "string list \<Rightarrow> (nat \<times> string) list \<Rightarrow> error option" where
  "checkHeader h [] = None"
| "checkHeader h ((i, want) # ws) =
     (if h ! i \<noteq> want then Some (ErrHeaderField i (h ! i) want) else checkHeader h ws)"

text \<open>
  \<^verbatim>\<open>validateHeader\<close> consumes the first line; the model returns the error, the field count
  the reader now expects, and the lines left.
\<close>

definition validateHeader :: "csvLine list \<Rightarrow> error option \<times> nat \<times> csvLine list" where
  "validateHeader ls =
     (case ls of
        [] \<Rightarrow> (Some ErrHeaderRead, 0, [])
      | l # rest \<Rightarrow>
          (case csvRecord 0 l of
             None \<Rightarrow> (Some ErrHeaderRead, 0, rest)
           | Some (h, fpr) \<Rightarrow>
               let wantLen = length headerFormat
               in if length h \<noteq> wantLen then (Some (ErrHeaderLength (length h) wantLen), fpr, rest)
                  else (checkHeader h (enumerate 0 headerFormat), fpr, rest)))"

record 'v line =
  lineMPRN :: string
  lineSerialNumber :: string
  lineValue :: 'v
  lineEndTime :: Time

text \<open>
  \<^verbatim>\<open>parseLine\<close> reads \<^verbatim>\<open>record[0]\<close> to \<^verbatim>\<open>record[4]\<close> without looking at the length: a
  shorter record is a run-time panic. The two library parsers are parameters:
  \<open>parseFloat\<close> stands for \<^verbatim>\<open>strconv.ParseFloat(s, 64)\<close> and \<open>parseTime\<close> for
  \<^verbatim>\<open>time.ParseInLocation("02-01-2006 15:04", s, irelandTimezone)\<close>, with \<open>None\<close> for an
  error. The partly filled line that the source returns beside an error is dropped by the
  caller and is not kept here.
\<close>

definition parseLine ::
  "(string \<Rightarrow> 'v option) \<Rightarrow> (string \<Rightarrow> Time option) \<Rightarrow> nat \<Rightarrow> string list
     \<Rightarrow> (error + 'v line) outcome" where
  "parseLine parseFloat parseTime lineNumber record =
     (if length record < 5 then Panic
      else
        let recordType = record ! 3;
            sval = record ! 2;
            sts = record ! 4
        in if recordType \<noteq> wantReadType
           then Return (Inl (ErrReadType lineNumber recordType wantReadType))
           else case parseFloat sval of
                  None \<Rightarrow> Return (Inl (ErrParseValue lineNumber))
                | Some v \<Rightarrow>
                    (case parseTime sts of
                       None \<Rightarrow> Return (Inl (ErrParseTime lineNumber))
                     | Some t \<Rightarrow>
                         Return (Inr \<lparr>lineMPRN = record ! 0, lineSerialNumber = record ! 1,
                                      lineValue = v, lineEndTime = t\<rparr>)))"

text \<open>
  The loop \<^verbatim>\<open>for i := 1; ; i++\<close> of \<^verbatim>\<open>HDF\<close>, over the lines left after the header. Every
  error leaves the function with no result.
\<close>

fun readData ::
  "(string \<Rightarrow> 'v option) \<Rightarrow> (string \<Rightarrow> Time option) \<Rightarrow> nat \<Rightarrow> nat \<Rightarrow> csvLine list
     \<Rightarrow> 'v Result \<Rightarrow> (error + 'v Result) outcome" where
  "readData parseFloat parseTime fpr i [] res = Return (Inr res)"
| "readData parseFloat parseTime fpr i (l # ls) res =
     (case csvRecord fpr l of
        None \<Rightarrow> Return (Inl ErrCsv)
      | Some (record, fpr') \<Rightarrow>
          (case parseLine parseFloat parseTime i record of
             Panic \<Rightarrow> Panic
           | Return (Inl e) \<Rightarrow> Return (Inl e)
           | Return (Inr parsed) \<Rightarrow>
               if i = 1 then
                 readData parseFloat parseTime fpr' (i + 1) ls
                   (res\<lparr>MPRN := lineMPRN parsed, MeterSerialNumber := lineSerialNumber parsed,
                        ReadTypes := wantReadType,
                        Reads := Reads res @ [\<lparr>Value = lineValue parsed, EndTime = lineEndTime parsed\<rparr>]\<rparr>)
               else if MPRN res \<noteq> lineMPRN parsed then
                 Return (Inl (ErrMultipleMPRN (MPRN res) (lineMPRN parsed)))
               else if MeterSerialNumber res \<noteq> lineSerialNumber parsed then
                 Return (Inl (ErrMultipleSerial (MeterSerialNumber res) (lineSerialNumber parsed)))
               else
                 readData parseFloat parseTime fpr' (i + 1) ls
                   (res\<lparr>Reads := Reads res @
                          [\<lparr>Value = lineValue parsed, EndTime = lineEndTime parsed\<rparr>]\<rparr>)))"

section \<open>fixTimezone\<close>

text \<open>
  One round of the loop of \<^verbatim>\<open>fixTimezone\<close> (src/parse/parse.go of the module under src/),
  at index \<open>i\<close>, on the slice as the rounds before have left it; \<open>maxLen\<close> (the variable \<^verbatim>\<open>max\<close>) is its length. The
  last branch of the switch only writes a log line.
\<close>

definition fixTimezoneAt :: "nat \<Rightarrow> nat \<Rightarrow> 'v Read list \<Rightarrow> 'v Read list" where
  "fixTimezoneAt maxLen i reads =
     (let r = reads ! i
      in if fst (Zone (EndTime r)) \<noteq> ''GMT'' then reads
         else
           let ct = EndTime r
           in if i + 2 < maxLen then
                (let fix = Add ct (- Hour)
                 in if Equal (EndTime (reads ! (i + 2))) ct
                    then reads[i := r\<lparr>EndTime := fix\<rparr>] else reads)
              else if 2 \<le> i then
                (let fix = Add (EndTime (reads ! (i - 2))) Hour;
                     ftz = snd (Zone fix);
                     rtz = snd (Zone ct)
                 in if ftz \<noteq> rtz then reads[i := r\<lparr>EndTime := fix\<rparr>] else reads)
              else reads)"

definition fixTimezone :: "'v Result \<Rightarrow> 'v Result" where
  "fixTimezone res =
     res\<lparr>Reads := fold (fixTimezoneAt (length (Reads res))) [0..<length (Reads res)] (Reads res)\<rparr>"

section \<open>splitTimes\<close>

definition isHalfSharp :: "Time \<Rightarrow> error option" where
  "isHalfSharp ts =
     (let m = Time_Minute ts
      in if Time_Second ts \<noteq> 0 \<or> Time_Nanosecond ts \<noteq> 0 \<or> (m \<noteq> 0 \<and> m \<noteq> 30)
         then Some (ErrNotAligned ts) else None)"

definition shallowCopyResult :: "'v Result \<Rightarrow> 'v Result" where
  "shallowCopyResult res = res\<lparr>Reads := []\<rparr>"

text \<open>
  The loop of \<^verbatim>\<open>splitTimes\<close> over the readings still to visit, with \<^verbatim>\<open>lastTs\<close>, the blocks
  \<^verbatim>\<open>rr\<close> and the index \<^verbatim>\<open>idx\<close> of the block being filled.
\<close>

fun splitLoop ::
  "'v Result \<Rightarrow> 'v Read list \<Rightarrow> Time \<Rightarrow> 'v Result list \<Rightarrow> nat
     \<Rightarrow> 'v Result list \<times> error option" where
  "splitLoop res [] lastTs rr idx = (rr, None)"
| "splitLoop res (r # rs) lastTs rr idx =
     (let ts = EndTime r
      in case isHalfSharp ts of
           Some err \<Rightarrow> ([], Some err)
         | None \<Rightarrow>
             if \<not> IsZero lastTs then
               (let m = Minutes (Sub ts lastTs)
                in if m = 30 then
                     splitLoop res rs ts
                       (rr[idx := (rr ! idx)\<lparr>Reads := Reads (rr ! idx) @ [r]\<rparr>]) idx
                   else if m \<le> 0 then (rr, Some (ErrNotSorted lastTs ts))
                   else
                     (let rr = rr @ [shallowCopyResult res];
                          idx = idx + 1
                      in splitLoop res rs ts
                           (rr[idx := (rr ! idx)\<lparr>Reads := Reads (rr ! idx) @ [r]\<rparr>]) idx))
             else
               splitLoop res rs ts
                 (rr[idx := (rr ! idx)\<lparr>Reads := Reads (rr ! idx) @ [r]\<rparr>]) idx)"

definition splitTimes :: "'v Result \<Rightarrow> 'v Result list \<times> error option" where
  "splitTimes res = splitLoop res (Reads res) zeroTime [shallowCopyResult res] 0"

section \<open>HDF\<close>

text \<open>
  \<^verbatim>\<open>HDF\<close>: the header, the rows, the reversal of the readings (the source swaps the ends
  of the slice inwards), \<^verbatim>\<open>fixTimezone\<close> and \<^verbatim>\<open>splitTimes\<close>.
\<close>

definition emptyResult :: "'v Result" where
  "emptyResult = \<lparr>MPRN = [], MeterSerialNumber = [], ReadTypes = [], Reads = []\<rparr>"

definition HDF ::
  "(string \<Rightarrow> 'v option) \<Rightarrow> (string \<Rightarrow> Time option) \<Rightarrow> csvLine list
     \<Rightarrow> ('v Result list \<times> error option) outcome" where
  "HDF parseFloat parseTime hdf =
     (case validateHeader hdf of
        (Some err, _, _) \<Rightarrow> Return ([], Some err)
      | (None, fpr, rows) \<Rightarrow>
          (case readData parseFloat parseTime fpr 1 rows emptyResult of
             Panic \<Rightarrow> Panic
           | Return (Inl err) \<Rightarrow> Return ([], Some err)
           | Return (Inr res) \<Rightarrow>
               Return (splitTimes (fixTimezone (res\<lparr>Reads := rev (Reads res)\<rparr>)))))"

section \<open>The library's date parser and the Irish time zone\<close>

text \<open>
  Two pieces of the environment are needed to run the program on a concrete file: the
  parser \<^verbatim>\<open>time.ParseInLocation\<close> with the layout \<^verbatim>\<open>"02-01-2006 15:04"\<close>, and the rules of
  \<^verbatim>\<open>Europe/Dublin\<close>. Both belong to Go and to the time-zone data base, not to the repository;
  the general theorems below take them as parameters, and the models here serve the
  concrete files only.
\<close>

definition digitVal :: "char \<Rightarrow> int option" where
  "digitVal = map_of (zip ''0123456789'' [0, 1, 2, 3, 4, 5, 6, 7, 8, 9])"

text \<open>One or two digits; exactly two when \<open>fixed\<close>. The number and the rest of the text.\<close>

fun getnum :: "string \<Rightarrow> bool \<Rightarrow> (int \<times> string) option" where
  "getnum [] fixed = None"
| "getnum [c] fixed =
     (case digitVal c of
        None \<Rightarrow> None
      | Some d \<Rightarrow> if fixed then None else Some (d, []))"
| "getnum (c # c' # rest) fixed =
     (case digitVal c of
        None \<Rightarrow> None
      | Some d \<Rightarrow>
          (case digitVal c' of
             None \<Rightarrow> if fixed then None else Some (d, c' # rest)
           | Some d' \<Rightarrow> Some (d * 10 + d', rest)))"

text \<open>The four digits of the year.\<close>

fun getyear :: "string \<Rightarrow> (int \<times> string) option" where
  "getyear (a # b # c # d # rest) =
     (case (digitVal a, digitVal b, digitVal c, digitVal d) of
        (Some x, Some y, Some z, Some w) \<Rightarrow> Some (x * 1000 + y * 100 + z * 10 + w, rest)
      | _ \<Rightarrow> None)"
| "getyear _ = None"

text \<open>A literal character of the layout; a space of the layout stands for a run of spaces.\<close>

fun skipChar :: "char \<Rightarrow> string \<Rightarrow> string option" where
  "skipChar c [] = None"
| "skipChar c (x # xs) = (if x = c then Some xs else None)"

fun skipSpace :: "string \<Rightarrow> string option" where
  "skipSpace [] = Some []"
| "skipSpace (x # xs) =
     (if x \<noteq> CHR '' '' then None else Some (dropWhile (\<lambda>c. c = CHR '' '') (x # xs)))"

definition isLeap :: "int \<Rightarrow> bool" where
  "isLeap year \<longleftrightarrow> year mod 4 = 0 \<and> (year mod 100 \<noteq> 0 \<or> year mod 400 = 0)"

definition daysIn :: "int \<Rightarrow> int \<Rightarrow> int" where
  "daysIn m year =
     (if m = 2 then (if isLeap year then 29 else 28)
      else if m = 4 \<or> m = 6 \<or> m = 9 \<or> m = 11 then 30 else 31)"

text \<open>
  Days from 1 January 1970 to a date of the proleptic Gregorian calendar: the year is
  counted from March, \<open>yoe\<close> is the year within its 400-year era and \<open>doy\<close> the day
  within the year.
\<close>

definition doeOfDate :: "int \<Rightarrow> int \<Rightarrow> int" where
  "doeOfDate yoe doy = yoe * 365 + yoe div 4 - yoe div 100 + doy"

definition daysFromShifted :: "int \<Rightarrow> int \<Rightarrow> int \<Rightarrow> int" where
  "daysFromShifted y mp d =
     (y div 400) * 146097 + doeOfDate (y mod 400) ((153 * mp + 2) div 5 + d - 1) - 719468"

definition daysFromCivil :: "int \<Rightarrow> int \<Rightarrow> int \<Rightarrow> int" where
  "daysFromCivil y m d = daysFromShifted (if m \<le> 2 then y - 1 else y) ((m + 9) mod 12) d"

text \<open>The calendar year of an instant, in UTC, by the inverse computation.\<close>

definition yoeOf :: "int \<Rightarrow> int" where
  "yoeOf doe = (doe - doe div 1460 + doe div 36524 - doe div 146096) div 365"

definition doyOf :: "int \<Rightarrow> int \<Rightarrow> int" where
  "doyOf doe yoe = doe - (365 * yoe + yoe div 4 - yoe div 100)"

definition monthOfMp :: "int \<Rightarrow> int" where
  "monthOfMp mp = (if mp < 10 then mp + 3 else mp - 9)"

definition yearFix :: "int \<Rightarrow> int \<Rightarrow> int" where
  "yearFix y m = (if m \<le> 2 then y + 1 else y)"

definition yearOfEra :: "int \<Rightarrow> int \<Rightarrow> int" where
  "yearOfEra era doe =
     yearFix (yoeOf doe + era * 400) (monthOfMp ((5 * doyOf doe (yoeOf doe) + 2) div 153))"

definition yearOf :: "int \<Rightarrow> int" where
  "yearOf s =
     yearOfEra ((s div 86400 + 719468) div 146097) ((s div 86400 + 719468) mod 146097)"

text \<open>
  \<^verbatim>\<open>time.Date\<close> for a date and a clock time in range, in a location: the clock reading is
  first looked up as if it were UTC; when the zone found is not in force at the instant
  this gives, the zone in force at that instant is taken instead.
\<close>

definition adjustZone :: "Location \<Rightarrow> int \<Rightarrow> zoneInfo \<Rightarrow> Time" where
  "adjustZone l unix z =
     (if zOffset z \<noteq> 0 then
        (if unix - zOffset z < zStart z \<or> zEnd z \<le> unix - zOffset z
         then \<lparr>unixNano = (unix - zOffset (l (unix - zOffset z))) * 1000000000, loc = l\<rparr>
         else \<lparr>unixNano = (unix - zOffset z) * 1000000000, loc = l\<rparr>)
      else \<lparr>unixNano = unix * 1000000000, loc = l\<rparr>)"

definition resolveZone :: "Location \<Rightarrow> int \<Rightarrow> Time" where
  "resolveZone l unix = adjustZone l unix (l unix)"

definition Date :: "int \<Rightarrow> int \<Rightarrow> int \<Rightarrow> int \<Rightarrow> int \<Rightarrow> Location \<Rightarrow> Time" where
  "Date year month day hour minute l =
     resolveZone l (daysFromCivil year month day * 86400 + hour * 3600 + minute * 60)"

text \<open>\<^verbatim>\<open>time.ParseInLocation("02-01-2006 15:04", s, l)\<close>.\<close>

definition parseInLocation :: "Location \<Rightarrow> string \<Rightarrow> Time option" where
  "parseInLocation l s0 =
     Option.bind (getnum s0 True) (\<lambda>(day, s1).
     Option.bind (skipChar (CHR ''-'') s1) (\<lambda>s2.
     Option.bind (getnum s2 True) (\<lambda>(month, s3).
     if month \<le> 0 \<or> 12 < month then None else
     Option.bind (skipChar (CHR ''-'') s3) (\<lambda>s4.
     Option.bind (getyear s4) (\<lambda>(year, s5).
     Option.bind (skipSpace s5) (\<lambda>s6.
     Option.bind (getnum s6 False) (\<lambda>(hour, s7).
     if 24 \<le> hour then None else
     Option.bind (skipChar (CHR '':'') s7) (\<lambda>s8.
     Option.bind (getnum s8 True) (\<lambda>(minute, s9).
     if 60 \<le> minute then None
     else if s9 \<noteq> [] then None
     else if day < 1 \<or> daysIn month year < day then None
     else Some (Date year month day hour minute l))))))))))"

text \<open>
  \<^verbatim>\<open>Europe/Dublin\<close> under the rule in force since 1996: Irish summer time (\<^verbatim>\<open>IST\<close>, one hour
  ahead of UTC) from 01:00 UTC on the last Sunday of March to 01:00 UTC on the last Sunday
  of October, \<^verbatim>\<open>GMT\<close> otherwise. It is used for dates of 2023 only.
\<close>

definition sundayOnOrBefore :: "int \<Rightarrow> int" where
  "sundayOnOrBefore d = d - (d + 4) mod 7"

definition lastSunday :: "int \<Rightarrow> int \<Rightarrow> int" where
  "lastSunday y m = sundayOnOrBefore (daysFromCivil y m 31)"

definition summerStart :: "int \<Rightarrow> int" where
  "summerStart y = lastSunday y 3 * 86400 + 3600"

definition summerEnd :: "int \<Rightarrow> int" where
  "summerEnd y = lastSunday y 10 * 86400 + 3600"

definition irelandZone :: "int \<Rightarrow> int \<Rightarrow> zoneInfo" where
  "irelandZone y s =
     (if summerStart y \<le> s \<and> s < summerEnd y
      then \<lparr>zName = ''IST'', zOffset = 3600, zStart = summerStart y, zEnd = summerEnd y\<rparr>
      else if s < summerStart y
      then \<lparr>zName = ''GMT'', zOffset = 0, zStart = summerEnd (y - 1), zEnd = summerStart y\<rparr>
      else \<lparr>zName = ''GMT'', zOffset = 0, zStart = summerEnd y, zEnd = summerStart (y + 1)\<rparr>)"

definition irelandTimezone :: Location where
  "irelandTimezone s = irelandZone (yearOf s) s"

text \<open>A stand-in for \<^verbatim>\<open>strconv.ParseFloat\<close> on the values of the example files.\<close>

definition exampleFloat :: "string \<Rightarrow> real option" where
  "exampleFloat s =
     (if s = ''0.1'' then Some (1 / 10)
      else if s = ''0.194000'' then Some (194 / 1000)
      else if s = ''0.157000'' then Some (157 / 1000)
      else if s = ''0.111000'' then Some (111 / 1000)
      else None)"

section \<open>Notions used to state the properties of Translate\<close>

text \<open>The readings the loop of \<^verbatim>\<open>Translate\<close> ranges over: the segment after the leading trim.\<close>

definition retained :: "'v Read list \<Rightarrow> 'v Read list" where
  "retained reads =
     (if 0 < length reads \<and> isRound (EndTime (reads ! 0)) then drop 1 reads else reads)"

text \<open>The accumulator after it has consumed the readings \<open>rs\<close>, starting from zero.\<close>

definition halves :: "('v \<Rightarrow> 'v) \<Rightarrow> 'v Read list \<Rightarrow> ('v::{zero,plus})" where
  "halves half rs = foldl (\<lambda>a r. a + half (Value r)) 0 rs"

text \<open>
  The positions, among \<open>n\<close> retained readings counted from 0, whose reading triggers an
  emission; the position after the last emission before position \<open>i\<close> (0 when there was
  none), where the accumulator was last zero; and the readings consumed from there up to
  and including position \<open>i\<close>.
\<close>

definition emitIndices :: "nat \<Rightarrow> nat list" where
  "emitIndices n = filter (\<lambda>i. i mod 2 = 0 \<and> 0 < i) [0..<n]"

definition resetPoint :: "nat \<Rightarrow> nat" where
  "resetPoint i = (case rev (emitIndices i) of [] \<Rightarrow> 0 | j # _ \<Rightarrow> Suc j)"

definition sinceReset :: "'v Read list \<Rightarrow> nat \<Rightarrow> 'v Read list" where
  "sinceReset all i = drop (resetPoint i) (take (Suc i) all)"

text \<open>
  The rule as the specification words it: a point is emitted when the count of readings
  consumed so far, the triggering one included, is even and not zero. These are the counts,
  among \<open>n\<close> readings, at which that rule emits.
\<close>

definition emitCounts_spec :: "nat \<Rightarrow> nat list" where
  "emitCounts_spec n = filter (\<lambda>c. c mod 2 = 0 \<and> 0 < c) [1..<Suc n]"

text \<open>
  Closed forms used in the proofs: the readings that make up the \<open>k\<close>-th emitted point, the
  readings consumed since the last emission once \<open>i\<close> readings are consumed, and the
  invariant of the loop after \<open>i\<close> readings.
\<close>

definition bucket :: "'v Read list \<Rightarrow> nat \<Rightarrow> 'v Read list" where
  "bucket all k = (if k = 0 then take 3 all else take 2 (drop (2 * k + 1) all))"

definition unemitted :: "'v Read list \<Rightarrow> nat \<Rightarrow> 'v Read list" where
  "unemitted all i = (if i < 3 then take i all else if odd i then [] else [all ! (i - 1)])"

definition translateInv ::
  "('v \<Rightarrow> 'v) \<Rightarrow> 'v Read list \<Rightarrow> nat \<Rightarrow> 'v \<Rightarrow> 'v
     \<Rightarrow> ('v::{zero,plus}) StatisticValue list \<Rightarrow> bool" where
  "translateInv half all i sumAcc val stats \<longleftrightarrow>
     length stats = (i - 1) div 2 \<and>
     (\<forall>k<length stats.
        Start (stats ! k) = EndTime (all ! (2 * k + 1)) \<and>
        State (stats ! k) = halves half (bucket all k) \<and>
        Sum (stats ! k) = foldl (+) 0 (map State (take (Suc k) stats))) \<and>
     sumAcc = foldl (+) 0 (map State stats) \<and>
     val = halves half (unemitted all i)"

text \<open>
  Example segments, in UTC: readings every half hour from 15 January 2023, 22:30, with the
  values 1, 2, 3, ... kW.
\<close>

definition utc :: "int \<Rightarrow> Time" where
  "utc s = \<lparr>unixNano = s * 1000000000, loc = UTC\<rparr>"

definition exampleReads :: "nat \<Rightarrow> real Read list" where
  "exampleReads n =
     map (\<lambda>k. \<lparr>Value = of_nat (Suc k), EndTime = utc (1673821800 + 1800 * int k)\<rparr>) [0..<n]"

definition exampleSegment :: "nat \<Rightarrow> real Result" where
  "exampleSegment n =
     \<lparr>MPRN = ''123'', MeterSerialNumber = ''45'',
      ReadTypes = ''Active Import Interval (kW)'', Reads = exampleReads n\<rparr>"

definition kWhMetadata :: StatisticMetadata where
  "kWhMetadata = \<lparr>HasSum = True, UnitOfMeasurement = ''kWh''\<rparr>"

section \<open>Notions used to state the properties of splitTimes\<close>

text \<open>
  A timestamp on the half hour, as the specification words it: the clock minute, read in the
  timestamp's location, is 0 or 30, and the seconds and the fraction of a second are zero.
\<close>

definition halfHourAligned :: "Time \<Rightarrow> bool" where
  "halfHourAligned t \<longleftrightarrow>
     (Time_Minute t = 0 \<or> Time_Minute t = 30) \<and> Time_Second t = 0 \<and> Time_Nanosecond t = 0"

text \<open>The time from a reading to a later one.\<close>

definition delta :: "'v Read \<Rightarrow> 'v Read \<Rightarrow> Duration" where
  "delta a b = Sub (EndTime b) (EndTime a)"

text \<open>
  The blocks of a list of readings, cut wherever two neighbours are not exactly half an hour
  apart. \<open>runsAfter p rs\<close> is for readings that follow a reading of timestamp \<open>p\<close>: its
  first element continues the block of that reading.
\<close>

fun runsAfter :: "Time \<Rightarrow> 'v Read list \<Rightarrow> 'v Read list list" where
  "runsAfter p [] = [[]]"
| "runsAfter p (r # rs) =
     (let R = runsAfter (EndTime r) rs
      in if Sub (EndTime r) p = 30 * Minute then (r # hd R) # tl R
         else [] # (r # hd R) # tl R)"

fun runs :: "'v Read list \<Rightarrow> 'v Read list list" where
  "runs [] = [[]]"
| "runs (r # rs) = (let R = runsAfter (EndTime r) rs in (r # hd R) # tl R)"

definition lastTime :: "Time \<Rightarrow> 'v Read list \<Rightarrow> Time" where
  "lastTime p c = (if c = [] then p else EndTime (last c))"

text \<open>The statement \<^verbatim>\<open>rr[idx].Reads = append(rr[idx].Reads, r)\<close> where \<open>idx\<close> is the last index.\<close>

definition appendLast :: "'v Result list \<Rightarrow> 'v Read \<Rightarrow> 'v Result list" where
  "appendLast rr r = butlast rr @ [(last rr)\<lparr>Reads := Reads (last rr) @ [r]\<rparr>]"

text \<open>
  Two readings exactly half an hour apart, and two blocks with a gap between them: the
  first reading of the second is not half an hour after the last reading of the first.
\<close>

definition halfHourApart :: "'v Read \<Rightarrow> 'v Read \<Rightarrow> bool" where
  "halfHourApart a b \<longleftrightarrow> delta a b = 30 * Minute"

definition gapBetween :: "'v Read list \<Rightarrow> 'v Read list \<Rightarrow> bool" where
  "gapBetween c d \<longleftrightarrow> delta (last c) (hd d) \<noteq> 30 * Minute"

text \<open>
  Example series, in UTC: two readings at 22:30 and 23:00 on 15 January 2023 and a third
  at 02:30 the next day; the same with the third reading at 22:30 again; and a single
  reading at 23:33.
\<close>

definition gapSeries :: "real Result" where
  "gapSeries =
     \<lparr>MPRN = ''123'', MeterSerialNumber = ''45'', ReadTypes = wantReadType,
      Reads = [\<lparr>Value = 1, EndTime = utc 1673821800\<rparr>, \<lparr>Value = 2, EndTime = utc 1673823600\<rparr>,
               \<lparr>Value = 3, EndTime = utc 1673836200\<rparr>]\<rparr>"

definition unsortedSeries :: "real Result" where
  "unsortedSeries =
     \<lparr>MPRN = ''123'', MeterSerialNumber = ''45'', ReadTypes = wantReadType,
      Reads = [\<lparr>Value = 1, EndTime = utc 1673821800\<rparr>, \<lparr>Value = 2, EndTime = utc 1673823600\<rparr>,
               \<lparr>Value = 3, EndTime = utc 1673821800\<rparr>]\<rparr>"

definition misalignedSeries :: "real Result" where
  "misalignedSeries =
     \<lparr>MPRN = ''123'', MeterSerialNumber = ''45'', ReadTypes = wantReadType,
      Reads = [\<lparr>Value = 1, EndTime = utc 1673825580\<rparr>]\<rparr>"

text \<open>The readings 22:30 and 23:00 of the same day followed by one at 23:33.\<close>

definition misalignedThird :: "real Result" where
  "misalignedThird =
     \<lparr>MPRN = ''123'', MeterSerialNumber = ''45'', ReadTypes = wantReadType,
      Reads = [\<lparr>Value = 1, EndTime = utc 1673821800\<rparr>, \<lparr>Value = 2, EndTime = utc 1673823600\<rparr>,
               \<lparr>Value = 3, EndTime = utc 1673825580\<rparr>]\<rparr>"

section \<open>Notions and examples used to state the properties of HDF and fixTimezone\<close>

text \<open>
  The first part of \<^verbatim>\<open>HDF\<close>, up to and including the reversal: the series as parsed, in
  ascending file order, before \<^verbatim>\<open>fixTimezone\<close> and \<^verbatim>\<open>splitTimes\<close>.
\<close>

definition ingest ::
  "(string \<Rightarrow> 'v option) \<Rightarrow> (string \<Rightarrow> Time option) \<Rightarrow> csvLine list
     \<Rightarrow> (error + 'v Result) outcome" where
  "ingest parseFloat parseTime hdf =
     (case validateHeader hdf of
        (Some err, _, _) \<Rightarrow> Return (Inl err)
      | (None, fpr, rows) \<Rightarrow>
          (case readData parseFloat parseTime fpr 1 rows emptyResult of
             Panic \<Rightarrow> Panic
           | Return (Inl err) \<Rightarrow> Return (Inl err)
           | Return (Inr res) \<Rightarrow> Return (Inr (res\<lparr>Reads := rev (Reads res)\<rparr>))))"

text \<open>An instant, given in Unix seconds, in the Irish time zone.\<close>

definition dublin :: "int \<Rightarrow> Time" where
  "dublin s = \<lparr>unixNano = s * 1000000000, loc = irelandTimezone\<rparr>"

definition dataRow :: "string \<Rightarrow> string \<Rightarrow> string \<Rightarrow> string \<Rightarrow> csvLine" where
  "dataRow mprn serial val ts = Fields [mprn, serial, val, wantReadType, ts]"

definition series :: "(real \<times> Time) list \<Rightarrow> real Result" where
  "series rs =
     \<lparr>MPRN = ''123'', MeterSerialNumber = ''45'', ReadTypes = wantReadType,
      Reads = map (\<lambda>(v, t). \<lparr>Value = v, EndTime = t\<rparr>) rs\<rparr>"

text \<open>
  The file of the test "Leaving Daylight Saving time": the rows, newest first, carry the local
  times 01:00, 00:30, 00:00 and 00:30 of 29 October 2023.
\<close>

definition autumnFile :: "csvLine list" where
  "autumnFile =
     [Fields headerFormat,
      dataRow ''123'' ''45'' ''0.1'' ''29-10-2023 01:00'',
      dataRow ''123'' ''45'' ''0.1'' ''29-10-2023 00:30'',
      dataRow ''123'' ''45'' ''0.1'' ''29-10-2023 00:00'',
      dataRow ''123'' ''45'' ''0.1'' ''29-10-2023 00:30'']"

text \<open>
  The four rows as parsed, in ascending file order: 00:30 IST (28 October, 23:30 UTC),
  00:00 IST (23:00 UTC), 00:30 IST again, and 01:00 GMT (01:00 UTC).
\<close>

definition autumnParsed :: "real Result" where
  "autumnParsed =
     series [(1 / 10, dublin 1698535800), (1 / 10, dublin 1698534000),
             (1 / 10, dublin 1698535800), (1 / 10, dublin 1698541200)]"

text \<open>
  A data row that \<^verbatim>\<open>parseLine\<close> accepts: five fields, the wanted reading type, a value and a
  timestamp that the library parsers accept.
\<close>

definition wellFormedRow ::
  "(string \<Rightarrow> 'v option) \<Rightarrow> (string \<Rightarrow> Time option) \<Rightarrow> string list \<Rightarrow> bool" where
  "wellFormedRow parseFloat parseTime row \<longleftrightarrow>
     length row = 5 \<and> row ! 3 = wantReadType \<and> parseFloat (row ! 2) \<noteq> None \<and>
     parseTime (row ! 4) \<noteq> None"

text \<open>
  The files of the tests "Different MPRN" and "Different serial number", and the file of
  the first test.
\<close>

definition differentMPRN :: "csvLine list" where
  "differentMPRN =
     [Fields headerFormat,
      dataRow ''123'' ''45'' ''0.194000'' ''15-01-2023 23:30'',
      dataRow ''321'' ''45'' ''0.157000'' ''15-01-2023 23:00'']"

definition differentSerial :: "csvLine list" where
  "differentSerial =
     [Fields headerFormat,
      dataRow ''123'' ''45'' ''0.194000'' ''15-01-2023 23:30'',
      dataRow ''123'' ''00'' ''0.157000'' ''15-01-2023 23:00'']"

definition januaryFile :: "csvLine list" where
  "januaryFile =
     [Fields headerFormat,
      dataRow ''123'' ''45'' ''0.194000'' ''15-01-2023 23:30'',
      dataRow ''123'' ''45'' ''0.157000'' ''15-01-2023 23:00'',
      dataRow ''123'' ''45'' ''0.111000'' ''15-01-2023 22:30'']"

text \<open>
  The disambiguation pass as the specification words it. A reading is looked at when its zone
  is the daylight-saving one, \<^verbatim>\<open>IST\<close>. If the reading two places earlier is the same
  instant, it is moved one hour later; otherwise, if there is a reading two places later and
  the moved instant is exactly one hour before it, it is moved as well; any other reading
  is left as it is. The pass runs once, in place, from the first reading to the last.
\<close>

definition disambiguateAt_spec :: "nat \<Rightarrow> nat \<Rightarrow> 'v Read list \<Rightarrow> 'v Read list" where
  "disambiguateAt_spec maxLen i reads =
     (let r = reads ! i; ct = EndTime r
      in if fst (Zone ct) \<noteq> ''IST'' then reads
         else if 2 \<le> i \<and> Equal (EndTime (reads ! (i - 2))) ct
         then reads[i := r\<lparr>EndTime := Add ct Hour\<rparr>]
         else if i + 2 < maxLen \<and> Sub (EndTime (reads ! (i + 2))) (Add ct Hour) = Hour
         then reads[i := r\<lparr>EndTime := Add ct Hour\<rparr>]
         else reads)"

definition disambiguate_spec :: "'v Result \<Rightarrow> 'v Result" where
  "disambiguate_spec res =
     res\<lparr>Reads := fold (disambiguateAt_spec (length (Reads res))) [0..<length (Reads res)]
                     (Reads res)\<rparr>"

section \<open>Properties of Translate\<close>

text \<open>
  C4. The claim is that the aggregator never crashes, in particular not on a segment
  whose only reading lands exactly on the hour. On that segment the leading trim leaves an
  empty slice and the next statement reads its first element: the call panics instead of
  returning an error. The segment here is the single reading of 15 January 2023, 23:00 UTC.
\<close>

theorem Translate_single_round_reading_panics:
  "Translate half
     \<lparr>MPRN = ''123'', MeterSerialNumber = ''45'',
      ReadTypes = ''Active Import Interval (kW)'',
      Reads = [\<lparr>Value = v, EndTime = \<lparr>unixNano = 1673823600000000000, loc = UTC\<rparr>\<rparr>]\<rparr>
   = Panic"
  by (simp add: Translate_def isRound_def Round_def Equal_def Add_def Hour_def Minute_def
      Second_def Nanosecond_def unixToInternal_def)

lemma Minutes_eq_30: "Minutes d = 30 \<longleftrightarrow> d = 30 * Minute"
  by (auto simp: Minutes_def Minute_def Second_def Nanosecond_def field_simps)

lemma halves_snoc: "halves half (rs @ [r]) = halves half rs + half (Value r)"
  by (simp add: halves_def)

lemma unemitted_step_emit:
  assumes "i mod 2 = 0" "0 < i" "i < length all"
  shows "unemitted all i @ [all ! i] = bucket all ((i - 1) div 2)"
proof (cases "i = 2")
  case True
  then show ?thesis using assms
    by (simp add: unemitted_def bucket_def take_Suc_conv_app_nth numeral_3_eq_3 numeral_2_eq_2)
next
  case False
  with assms have i4: "4 \<le> i" by presburger
  then have k: "2 * ((i - 1) div 2) + 1 = i - 1" "(i - 1) div 2 \<noteq> 0" "\<not> odd i" "\<not> i < 3"
    using assms by presburger+
  have s: "Suc (i - 1) = i" using i4 by simp
  have "drop (i - 1) all = all ! (i - 1) # all ! i # drop (Suc i) all"
    using assms i4 Cons_nth_drop_Suc[of "i - 1" all] Cons_nth_drop_Suc[of i all] s by simp
  then have "take 2 (drop (i - 1) all) = [all ! (i - 1), all ! i]"
    by (simp add: numeral_2_eq_2)
  moreover have "unemitted all i = [all ! (i - 1)]" using k by (simp add: unemitted_def)
  moreover have "bucket all ((i - 1) div 2) = take 2 (drop (i - 1) all)"
    using k by (simp add: bucket_def)
  ultimately show ?thesis by simp
qed

lemma unemitted_step_keep:
  assumes "\<not> (i mod 2 = 0 \<and> 0 < i)" "i < length all"
  shows "unemitted all i @ [all ! i] = unemitted all (Suc i)"
  using assms
  by (auto simp: unemitted_def take_Suc_conv_app_nth elim!: oddE)

lemma translateInv_emit:
  assumes inv: "translateInv half all i sumAcc val stats"
    and i: "i mod 2 = 0" "0 < i" "i < length all"
  shows "translateInv half all (Suc i) (sumAcc + (val + half (Value (all ! i)))) 0
           (stats @ [\<lparr>Start = EndTime (all ! (i - 1)), State = val + half (Value (all ! i)),
                      Sum = sumAcc + (val + half (Value (all ! i)))\<rparr>])"
proof -
  let ?v = "val + half (Value (all ! i))"
  let ?p = "\<lparr>Start = EndTime (all ! (i - 1)), State = ?v, Sum = sumAcc + ?v\<rparr>"
  from inv have len: "length stats = (i - 1) div 2"
    and old: "\<And>k. k < length stats \<Longrightarrow>
        Start (stats ! k) = EndTime (all ! (2 * k + 1)) \<and>
        State (stats ! k) = halves half (bucket all k) \<and>
        Sum (stats ! k) = foldl (+) 0 (map State (take (Suc k) stats))"
    and sm: "sumAcc = foldl (+) 0 (map State stats)"
    and vl: "val = halves half (unemitted all i)"
    by (auto simp: translateInv_def)
  have v: "?v = halves half (bucket all ((i - 1) div 2))"
    using unemitted_step_emit[OF i] vl halves_snoc[of half "unemitted all i" "all ! i"] by simp
  have idx: "2 * ((i - 1) div 2) + 1 = i - 1" using i by presburger
  have l1: "length (stats @ [?p]) = (Suc i - 1) div 2" using len i by simp presburger
  have l4: "(0::'a) = halves half (unemitted all (Suc i))"
    using i by (auto simp: unemitted_def halves_def)
  have l3: "sumAcc + ?v = foldl (+) 0 (map State (stats @ [?p]))" using sm by simp
  have l2: "Start ((stats @ [?p]) ! k) = EndTime (all ! (2 * k + 1)) \<and>
        State ((stats @ [?p]) ! k) = halves half (bucket all k) \<and>
        Sum ((stats @ [?p]) ! k) = foldl (+) 0 (map State (take (Suc k) (stats @ [?p])))"
    if "k < length (stats @ [?p])" for k
  proof (cases "k < length stats")
    case True
    then show ?thesis using old[OF True] by (simp add: nth_append)
  next
    case False
    with that have "k = length stats" by simp
    then show ?thesis using len v idx sm by (simp add: nth_append)
  qed
  show ?thesis unfolding translateInv_def using l1 l2 l3 l4 by blast
qed

lemma translateInv_keep:
  assumes inv: "translateInv half all i sumAcc val stats"
    and i: "\<not> (i mod 2 = 0 \<and> 0 < i)" "i < length all"
  shows "translateInv half all (Suc i) sumAcc (val + half (Value (all ! i))) stats"
proof -
  have "(Suc i - 1) div 2 = (i - 1) div 2" using i by presburger
  moreover have "val + half (Value (all ! i)) = halves half (unemitted all (Suc i))"
    using inv unemitted_step_keep[OF i] halves_snoc[of half "unemitted all i" "all ! i"]
    by (simp add: translateInv_def)
  ultimately show ?thesis using inv by (simp add: translateInv_def)
qed

lemma translateLoop_inv:
  assumes "translateInv half all i sumAcc val (Stats ret)"
    and "rs = drop i all"
    and "translateLoop half all i rs tsV sumAcc val ret = (ret', err)"
  shows "\<exists>n sumAcc' val'. i \<le> n \<and> n \<le> max i (length all) \<and> (err = None \<longrightarrow> n = max i (length all)) \<and>
           translateInv half all n sumAcc' val' (Stats ret') \<and> Metadata ret' = Metadata ret"
  using assms
proof (induction rs arbitrary: i tsV sumAcc val ret)
  case Nil
  then have "length all \<le> i" by simp
  with Nil show ?case
    by (intro exI[of _ i] exI[of _ sumAcc] exI[of _ val]) (simp add: max_def)
next
  case (Cons r rs)
  from Cons.prems(2) have il: "i < length all"
    by (cases "i < length all") auto
  have "r # rs = all ! i # drop (Suc i) all"
    using Cons.prems(2) Cons_nth_drop_Suc[OF il] by simp
  then have r: "r = all ! i" and rs: "rs = drop (Suc i) all"
    by simp_all
  show ?case
  proof (cases "Minutes (Sub (EndTime r) tsV) = 30")
    case False
    with Cons.prems(3) have "ret' = ret" "err \<noteq> None" by (auto simp: Let_def)
    with Cons.prems(1) il show ?thesis
      by (intro exI[of _ i] exI[of _ sumAcc] exI[of _ val]) (simp add: max_def)
  next
    case ok: True
    show ?thesis
    proof (cases "i mod 2 = 0 \<and> 0 < i")
      case True
      let ?v = "val + half (Value r)"
      let ?ret = "ret\<lparr>Stats := Stats ret @ [\<lparr>Start = EndTime (all ! (i - 1)), State = ?v, Sum = sumAcc + ?v\<rparr>]\<rparr>"
      from True ok Cons.prems(3)
      have run: "translateLoop half all (Suc i) rs (EndTime r) (sumAcc + ?v) 0 ?ret = (ret', err)"
        by (simp add: Let_def)
      have inv': "translateInv half all (Suc i) (sumAcc + ?v) 0 (Stats ?ret)"
        using translateInv_emit[OF Cons.prems(1) _ _ il] True r by simp
      from Cons.IH[OF inv' rs run] obtain n s v where
        "Suc i \<le> n" "n \<le> max (Suc i) (length all)" "err = None \<longrightarrow> n = max (Suc i) (length all)"
        "translateInv half all n s v (Stats ret')" "Metadata ret' = Metadata ret"
        by auto
      with il show ?thesis
        by (intro exI[of _ n] exI[of _ s] exI[of _ v]) (simp add: max_def)
    next
      case False
      from False ok Cons.prems(3)
      have run: "translateLoop half all (Suc i) rs (EndTime r) sumAcc (val + half (Value r)) ret = (ret', err)"
        by (auto simp add: Let_def)
      have inv': "translateInv half all (Suc i) sumAcc (val + half (Value r)) (Stats ret)"
        using translateInv_keep[OF Cons.prems(1) False il] r by simp
      from Cons.IH[OF inv' rs run] obtain n s v where
        "Suc i \<le> n" "n \<le> max (Suc i) (length all)" "err = None \<longrightarrow> n = max (Suc i) (length all)"
        "translateInv half all n s v (Stats ret')" "Metadata ret' = Metadata ret"
        by auto
      with il show ?thesis
        by (intro exI[of _ n] exI[of _ s] exI[of _ v]) (simp add: max_def)
    qed
  qed
qed


lemma emitIndices_Suc:
  "emitIndices (Suc n) = emitIndices n @ (if n mod 2 = 0 \<and> 0 < n then [n] else [])"
  by (simp add: emitIndices_def)

lemma emitIndices_closed: "emitIndices n = map (\<lambda>k. 2 * Suc k) [0..<(n - 1) div 2]"
proof (induction n)
  case 0
  show ?case by (simp add: emitIndices_def)
next
  case (Suc n)
  show ?case
  proof (cases "n mod 2 = 0 \<and> 0 < n")
    case True
    then have "(Suc n - 1) div 2 = Suc ((n - 1) div 2)" "2 * Suc ((n - 1) div 2) = n"
      by presburger+
    with True Suc show ?thesis by (simp add: emitIndices_Suc)
  next
    case False
    then have "(Suc n - 1) div 2 = (n - 1) div 2" by presburger
    with False Suc show ?thesis by (simp add: emitIndices_Suc)
  qed
qed

lemma length_emitIndices: "length (emitIndices n) = (n - 1) div 2"
  by (simp add: emitIndices_closed)

lemma nth_emitIndices: "k < (n - 1) div 2 \<Longrightarrow> emitIndices n ! k = 2 * Suc k"
  by (simp add: emitIndices_closed)

lemma resetPoint_even: "resetPoint (2 * Suc k) = (if k = 0 then 0 else 2 * k + 1)"
proof -
  have "(2 * Suc k - 1) div 2 = k" by presburger
  then have e: "emitIndices (2 * Suc k) = map (\<lambda>k. 2 * Suc k) [0..<k]"
    by (simp add: emitIndices_closed)
  show ?thesis
  proof (cases k)
    case 0
    with e show ?thesis by (simp add: resetPoint_def)
  next
    case (Suc j)
    with e show ?thesis by (simp add: resetPoint_def)
  qed
qed

lemma sinceReset_bucket: "sinceReset all (2 * Suc k) = bucket all k"
proof -
  have a: "sinceReset all (2 * Suc k) = drop (resetPoint (2 * Suc k)) (take (Suc (2 * Suc k)) all)"
    by (simp only: sinceReset_def)
  show ?thesis
  proof (cases "k = 0")
    case True
    have "resetPoint 2 = 0" using resetPoint_even[of 0] by (simp add: numeral_2_eq_2)
    moreover have "bucket all k = take 3 all" using True by (simp add: bucket_def)
    ultimately show ?thesis using a True by simp
  next
    case False
    have "Suc (2 * Suc k) - (2 * k + 1) = 2" by simp
    moreover have "resetPoint (2 * Suc k) = 2 * k + 1" using False resetPoint_even[of k] by simp
    moreover have "bucket all k = take 2 (drop (2 * k + 1) all)" using False by (simp add: bucket_def)
    ultimately show ?thesis using a by (simp only: drop_take)
  qed
qed

lemma translateInv_init: "translateInv half all 0 0 0 []"
  by (simp add: translateInv_def unemitted_def halves_def)

lemma Translate_cases:
  assumes "Translate half raw = Return (ret, err)"
  shows "(Reads raw = [] \<and> Stats ret = [] \<and> err = Some ErrNotEnoughData) \<or>
         (\<exists>tsV. translateLoop half (retained (Reads raw)) 0 (retained (Reads raw)) tsV 0 0
                  \<lparr>Metadata = \<lparr>HasSum = True, UnitOfMeasurement = ''kWh''\<rparr>, Stats = []\<rparr>
                = (ret, err))"
proof (cases "Reads raw = []")
  case True
  with assms show ?thesis by (auto simp: Translate_def)
next
  case False
  with assms show ?thesis
    by (auto simp: Translate_def retained_def Let_def split: list.splits if_splits)
qed

lemma Translate_inv:
  assumes "Translate half raw = Return (ret, err)"
  shows "\<exists>n sumAcc val. n \<le> length (retained (Reads raw)) \<and>
           (err = None \<longrightarrow> n = length (retained (Reads raw))) \<and>
           translateInv half (retained (Reads raw)) n sumAcc val (Stats ret)"
proof -
  from Translate_cases[OF assms] show ?thesis
  proof
    assume "Reads raw = [] \<and> Stats ret = [] \<and> err = Some ErrNotEnoughData"
    then show ?thesis
      using translateInv_init[of half "retained (Reads raw)"]
      by (intro exI[of _ 0] exI[of _ "0::'a"]) simp
  next
    assume "\<exists>tsV. translateLoop half (retained (Reads raw)) 0 (retained (Reads raw)) tsV 0 0
                  \<lparr>Metadata = \<lparr>HasSum = True, UnitOfMeasurement = ''kWh''\<rparr>, Stats = []\<rparr>
                = (ret, err)"
    then obtain tsV where run:
      "translateLoop half (retained (Reads raw)) 0 (retained (Reads raw)) tsV 0 0
          \<lparr>Metadata = \<lparr>HasSum = True, UnitOfMeasurement = ''kWh''\<rparr>, Stats = []\<rparr> = (ret, err)"
      by blast
    have "translateInv half (retained (Reads raw)) 0 0 0
            (Stats \<lparr>Metadata = \<lparr>HasSum = True, UnitOfMeasurement = ''kWh''\<rparr>, Stats = ([]::'a StatisticValue list)\<rparr>)"
      using translateInv_init by simp
    from translateLoop_inv[OF this _ run] show ?thesis by (auto simp: max_def)
  qed
qed

subsection \<open>The example segments, evaluated\<close>

lemmas time_simps = isRound_def Round_def Equal_def Add_def Sub_def Minutes_def Hour_def
  Minute_def Second_def Nanosecond_def unixToInternal_def minDuration_def maxDuration_def
  utc_def

lemma exampleReads_2:
  "exampleReads 2 =
     [\<lparr>Value = 1, EndTime = utc 1673821800\<rparr>, \<lparr>Value = 2, EndTime = utc 1673823600\<rparr>]"
  by (simp add: exampleReads_def upt_rec[of _ "numeral _"] upt_rec[of _ "Suc _"])

lemma exampleReads_5:
  "exampleReads 5 =
     [\<lparr>Value = 1, EndTime = utc 1673821800\<rparr>, \<lparr>Value = 2, EndTime = utc 1673823600\<rparr>,
      \<lparr>Value = 3, EndTime = utc 1673825400\<rparr>, \<lparr>Value = 4, EndTime = utc 1673827200\<rparr>,
      \<lparr>Value = 5, EndTime = utc 1673829000\<rparr>]"
  by (simp add: exampleReads_def upt_rec[of _ "numeral _"] upt_rec[of _ "Suc _"])

lemma retained_example_2: "retained (Reads (exampleSegment 2)) = exampleReads 2"
  by (simp add: retained_def exampleSegment_def exampleReads_2 time_simps)

lemma retained_example_5: "retained (Reads (exampleSegment 5)) = exampleReads 5"
  by (simp add: retained_def exampleSegment_def exampleReads_5 time_simps)

lemma Translate_example_5:
  "Translate (\<lambda>x. x / 2) (exampleSegment 5) =
     Return (\<lparr>Metadata = kWhMetadata,
              Stats = [\<lparr>Start = utc 1673823600, State = 3, Sum = 3\<rparr>,
                       \<lparr>Start = utc 1673827200, State = 9 / 2, Sum = 15 / 2\<rparr>]\<rparr>, None)"
  by (simp add: Translate_def exampleSegment_def exampleReads_5 kWhMetadata_def time_simps)

lemma emitIndices_5: "emitIndices 5 = [2, 4]"
  by (simp add: emitIndices_def upt_rec[of _ "numeral _"] upt_rec[of _ "Suc _"])

subsection \<open>When a point is emitted\<close>

text \<open>
  C3, as the code has it. On every segment for which \<^verbatim>\<open>Translate\<close> returns without
  error, the emitted points are, in order, one for each retained reading at an even,
  non-zero position counted from 0 (the third, fifth, seventh ... retained reading): a
  point is emitted when an even, non-zero count of readings had been consumed before the
  triggering one. The point's start is the instant of the reading just before the
  triggering one, and its state is the accumulator at that moment, which holds the halves
  of the readings consumed since the previous emission, where it was reset to zero (since
  the beginning for the first point).
\<close>

theorem Translate_emits:
  assumes "Translate half raw = Return (ret, None)"
  shows "map Start (Stats ret) =
           map (\<lambda>i. EndTime (retained (Reads raw) ! (i - 1)))
               (emitIndices (length (retained (Reads raw)))) \<and>
         map State (Stats ret) =
           map (\<lambda>i. halves half (sinceReset (retained (Reads raw)) i))
               (emitIndices (length (retained (Reads raw))))"
proof -
  let ?all = "retained (Reads raw)"
  from Translate_inv[OF assms] obtain s v where inv: "translateInv half ?all (length ?all) s v (Stats ret)"
    by auto
  then have len: "length (Stats ret) = (length ?all - 1) div 2"
    and pts: "\<And>k. k < length (Stats ret) \<Longrightarrow>
        Start (Stats ret ! k) = EndTime (?all ! (2 * k + 1)) \<and>
        State (Stats ret ! k) = halves half (bucket ?all k)"
    by (auto simp: translateInv_def)
  have "map Start (Stats ret) = map (\<lambda>i. EndTime (?all ! (i - 1))) (emitIndices (length ?all))"
    using len pts by (intro nth_equalityI) (simp_all add: length_emitIndices nth_emitIndices)
  moreover have "map State (Stats ret) = map (\<lambda>i. halves half (sinceReset ?all i)) (emitIndices (length ?all))"
    using len pts
    by (intro nth_equalityI)
       (simp_all add: length_emitIndices nth_emitIndices sinceReset_bucket del: mult_Suc_right)
  ultimately show ?thesis by simp
qed

theorem Translate_emits_witness:
  "Translate (\<lambda>x. x / 2) (exampleSegment 5) =
     Return (\<lparr>Metadata = kWhMetadata,
              Stats = [\<lparr>Start = utc 1673823600, State = 3, Sum = 3\<rparr>,
                       \<lparr>Start = utc 1673827200, State = 9 / 2, Sum = 15 / 2\<rparr>]\<rparr>, None) \<and>
   emitIndices (length (retained (Reads (exampleSegment 5)))) = [2, 4] \<and>
   [utc 1673823600, utc 1673827200] =
     map (\<lambda>i. EndTime (retained (Reads (exampleSegment 5)) ! (i - 1))) [2, 4] \<and>
   [3, 9 / 2] =
     map (\<lambda>i. halves (\<lambda>x. x / 2) (sinceReset (retained (Reads (exampleSegment 5))) i)) [2, 4]"
proof -
  have n: "emitIndices (length (retained (Reads (exampleSegment 5)))) = [2, 4]"
    by (simp add: retained_example_5 exampleReads_def emitIndices_5)
  from Translate_emits[OF Translate_example_5] n Translate_example_5 show ?thesis
    by simp
qed

text \<open>
  C3, as the claim words it, asks for a point whenever the count of readings consumed is
  even and not zero. The segment of two readings, 22:30 and 23:00, is a counterexample:
  after the second reading an even, non-zero count has been consumed, so the claimed rule
  emits once, and the code emits nothing.
\<close>

theorem Translate_even_count_counterexample:
  "Translate (\<lambda>x. x / 2) (exampleSegment 2) =
     Return (\<lparr>Metadata = kWhMetadata, Stats = []\<rparr>, None) \<and>
   emitCounts_spec (length (retained (Reads (exampleSegment 2)))) = [2]"
proof -
  have "Translate (\<lambda>x. x / 2) (exampleSegment 2) =
     Return (\<lparr>Metadata = kWhMetadata, Stats = []\<rparr>, None)"
    by (simp add: Translate_def exampleSegment_def exampleReads_2 kWhMetadata_def time_simps)
  moreover have "emitCounts_spec (length (retained (Reads (exampleSegment 2)))) = [2]"
    by (simp add: retained_example_2 exampleReads_2 emitCounts_spec_def
        upt_rec[of _ "numeral _"] upt_rec[of _ "Suc _"])
  ultimately show ?thesis by simp
qed

subsection \<open>The accumulator and the running sum\<close>

text \<open>
  C6. Whatever \<^verbatim>\<open>Translate\<close> returns, with or without an error, every point it has
  emitted has as state the halves of the readings consumed since the previous emission,
  added one by one to an accumulator that started at zero, and as sum the total, from
  zero, of the states emitted so far in this call. Nothing but the segment enters the
  computation, so no total is carried from one segment to another. (The source halves by
  dividing by 2.0, which on a float64 is the same number as multiplying by 0.5.)
\<close>

theorem Translate_running_sum:
  assumes "Translate half raw = Return (ret, err)"
  shows "\<forall>k<length (Stats ret).
           State (Stats ret ! k) =
             halves half (sinceReset (retained (Reads raw))
                            (emitIndices (length (retained (Reads raw))) ! k)) \<and>
           Sum (Stats ret ! k) = foldl (+) 0 (map State (take (Suc k) (Stats ret)))"
proof (intro allI impI)
  fix k assume k: "k < length (Stats ret)"
  let ?all = "retained (Reads raw)"
  from Translate_inv[OF assms] obtain n s v where n: "n \<le> length ?all"
    and inv: "translateInv half ?all n s v (Stats ret)"
    by auto
  from inv k have len: "k < (n - 1) div 2"
    and pt: "State (Stats ret ! k) = halves half (bucket ?all k)"
            "Sum (Stats ret ! k) = foldl (+) 0 (map State (take (Suc k) (Stats ret)))"
    by (auto simp: translateInv_def)
  from len n have "k < (length ?all - 1) div 2" by presburger
  then have "emitIndices (length ?all) ! k = 2 * Suc k" by (rule nth_emitIndices)
  with pt show "State (Stats ret ! k) =
             halves half (sinceReset ?all (emitIndices (length ?all) ! k)) \<and>
           Sum (Stats ret ! k) = foldl (+) 0 (map State (take (Suc k) (Stats ret)))"
    by (simp add: sinceReset_bucket del: mult_Suc_right)
qed

theorem Translate_running_sum_witness:
  "Translate (\<lambda>x. x / 2) (exampleSegment 5) =
     Return (\<lparr>Metadata = kWhMetadata,
              Stats = [\<lparr>Start = utc 1673823600, State = 3, Sum = 3\<rparr>,
                       \<lparr>Start = utc 1673827200, State = 9 / 2, Sum = 15 / 2\<rparr>]\<rparr>, None) \<and>
   (9 / 2 :: real) =
     halves (\<lambda>x. x / 2) (sinceReset (retained (Reads (exampleSegment 5)))
                              (emitIndices (length (retained (Reads (exampleSegment 5)))) ! 1)) \<and>
   (15 / 2 :: real) = foldl (+) 0 [3, 9 / 2]"
proof -
  let ?stats = "[\<lparr>Start = utc 1673823600, State = 3 :: real, Sum = 3\<rparr>,
                 \<lparr>Start = utc 1673827200, State = 9 / 2, Sum = 15 / 2\<rparr>]"
  from Translate_running_sum[OF Translate_example_5]
  have "1 < length ?stats \<longrightarrow>
          State (?stats ! 1) =
            halves (\<lambda>x. x / 2) (sinceReset (retained (Reads (exampleSegment 5)))
                              (emitIndices (length (retained (Reads (exampleSegment 5)))) ! 1)) \<and>
          Sum (?stats ! 1) = foldl (+) 0 (map State (take (Suc 1) ?stats))"
    by (simp only: Statistics.simps) blast
  with Translate_example_5 show ?thesis by simp
qed


section \<open>Properties of HDF, fixTimezone and splitTimes\<close>

subsection \<open>A file with a header and no data\<close>

text \<open>
  C9. For the input that consists of the valid header line and nothing else, \<^verbatim>\<open>HDF\<close>
  returns, without error, exactly one block, whose reading list is empty; it is
  \<^verbatim>\<open>Translate\<close> that rejects this block, with the error "not enough data".
\<close>

theorem HDF_header_only:
  "HDF parseFloat parseTime [Fields headerFormat] = Return ([emptyResult], None) \<and>
   Reads (emptyResult :: 'v Result) = [] \<and>
   Translate half (emptyResult :: ('v::{zero,plus}) Result) =
     Return (\<lparr>Metadata = kWhMetadata, Stats = []\<rparr>, Some ErrNotEnoughData)"
  by (simp add: HDF_def validateHeader_def csvRecord_def headerFormat_def
      fixTimezone_def splitTimes_def shallowCopyResult_def emptyResult_def Translate_def
      kWhMetadata_def)

subsection \<open>What fixTimezone leaves alone\<close>

lemma fixTimezoneAt_length: "length (fixTimezoneAt m i rs) = length rs"
  by (simp add: fixTimezoneAt_def Let_def)

lemma map_Value_update:
  "map Value (rs[i := (rs ! i)\<lparr>EndTime := t\<rparr>]) = map Value rs"
proof (cases "i < length rs")
  case True
  then show ?thesis by (simp add: map_update list_update_same_conv)
next
  case False
  then have "length rs \<le> i" by arith
  then have "rs[i := (rs ! i)\<lparr>EndTime := t\<rparr>] = rs" by (rule list_update_beyond)
  then show ?thesis by (rule arg_cong)
qed

lemma fixTimezoneAt_Value: "map Value (fixTimezoneAt m i rs) = map Value rs"
  by (simp add: fixTimezoneAt_def Let_def map_Value_update)

lemma fold_fixTimezoneAt_frame:
  "length (fold (fixTimezoneAt m) is rs) = length rs \<and>
   map Value (fold (fixTimezoneAt m) is rs) = map Value rs"
  by (induction "is" arbitrary: rs) (simp_all add: fixTimezoneAt_length fixTimezoneAt_Value)

text \<open>
  C10. \<^verbatim>\<open>fixTimezone\<close> changes nothing but the timestamps of readings: the number of
  readings, the value at every position, the meter identifier, the serial number and the
  reading type are those of the series it was given.
\<close>

theorem fixTimezone_frame:
  "length (Reads (fixTimezone res)) = length (Reads res) \<and>
   map Value (Reads (fixTimezone res)) = map Value (Reads res) \<and>
   MPRN (fixTimezone res) = MPRN res \<and>
   MeterSerialNumber (fixTimezone res) = MeterSerialNumber res \<and>
   ReadTypes (fixTimezone res) = ReadTypes res"
  by (simp add: fixTimezone_def fold_fixTimezoneAt_frame)


subsection \<open>splitTimes: alignment\<close>

lemma isHalfSharp_None: "isHalfSharp t = None \<longleftrightarrow> halfHourAligned t"
  by (auto simp: isHalfSharp_def halfHourAligned_def Let_def)

lemma isHalfSharp_Some: "isHalfSharp t = Some e \<longleftrightarrow> \<not> halfHourAligned t \<and> e = ErrNotAligned t"
  by (auto simp: isHalfSharp_def halfHourAligned_def Let_def)

lemma Minutes_le_0: "Minutes d \<le> 0 \<longleftrightarrow> d \<le> 0"
  by (simp add: Minutes_def Minute_def Second_def Nanosecond_def divide_le_0_iff)

lemma splitLoop_misaligned:
  "\<exists>r\<in>set rs. \<not> halfHourAligned (EndTime r) \<Longrightarrow> snd (splitLoop res rs t rr idx) \<noteq> None"
proof (induction rs arbitrary: t rr idx)
  case Nil
  then show ?case by simp
next
  case (Cons r rs)
  show ?case
  proof (cases "halfHourAligned (EndTime r)")
    case False
    then obtain e where "isHalfSharp (EndTime r) = Some e"
      using isHalfSharp_None[of "EndTime r"] by (cases "isHalfSharp (EndTime r)") auto
    then show ?thesis by simp
  next
    case True
    with Cons.prems have ex: "\<exists>r\<in>set rs. \<not> halfHourAligned (EndTime r)" by auto
    from True have "isHalfSharp (EndTime r) = None" by (simp add: isHalfSharp_None)
    then show ?thesis using Cons.IH[OF ex] by (simp add: Let_def)
  qed
qed

lemma splitLoop_NotAligned:
  "snd (splitLoop res rs t rr idx) = Some (ErrNotAligned u) \<Longrightarrow>
     \<exists>r\<in>set rs. EndTime r = u \<and> \<not> halfHourAligned u"
proof (induction rs arbitrary: t rr idx)
  case Nil
  then show ?case by simp
next
  case (Cons r rs)
  show ?case
  proof (cases "isHalfSharp (EndTime r)")
    case (Some e)
    with Cons.prems show ?thesis by (auto simp: isHalfSharp_Some)
  next
    case None
    with Cons.prems Cons.IH show ?thesis
      by (auto simp: Let_def split: if_splits)
  qed
qed

lemma update_last:
  "rr \<noteq> [] \<Longrightarrow>
   rr[length rr - 1 := (rr ! (length rr - 1))\<lparr>Reads := Reads (rr ! (length rr - 1)) @ [r]\<rparr>]
     = appendLast rr r"
  by (induction rr rule: rev_induct) (simp_all add: appendLast_def nth_append)

lemma appendLast_props:
  "rr \<noteq> [] \<Longrightarrow> appendLast rr r \<noteq> [] \<and> length (appendLast rr r) = length rr \<and>
     concat (map Reads (appendLast rr r)) = concat (map Reads rr) @ [r]"
  by (induction rr rule: rev_induct) (simp_all add: appendLast_def)

lemma splitLoop_step:
  assumes "rr \<noteq> []"
  shows "splitLoop res (r # rs) lastTs rr (length rr - 1) =
     (case isHalfSharp (EndTime r) of
        Some err \<Rightarrow> ([], Some err)
      | None \<Rightarrow>
          if IsZero lastTs \<or> Sub (EndTime r) lastTs = 30 * Minute
          then splitLoop res rs (EndTime r) (appendLast rr r) (length (appendLast rr r) - 1)
          else if Sub (EndTime r) lastTs \<le> 0
          then (rr, Some (ErrNotSorted lastTs (EndTime r)))
          else splitLoop res rs (EndTime r)
                 (appendLast (rr @ [shallowCopyResult res]) r)
                 (length (appendLast (rr @ [shallowCopyResult res]) r) - 1))"
proof -
  have a: "length (appendLast rr r) - 1 = length rr - 1"
    using assms appendLast_props[of rr r] by simp
  have b: "length (appendLast (rr @ [shallowCopyResult res]) r) - 1 = length rr - 1 + 1"
    using assms appendLast_props[of "rr @ [shallowCopyResult res]" r] by simp
  have c: "(rr @ [shallowCopyResult res])[length rr - 1 + 1 :=
             ((rr @ [shallowCopyResult res]) ! (length rr - 1 + 1))
               \<lparr>Reads := Reads ((rr @ [shallowCopyResult res]) ! (length rr - 1 + 1)) @ [r]\<rparr>]
           = appendLast (rr @ [shallowCopyResult res]) r"
    using assms update_last[of "rr @ [shallowCopyResult res]" r] by simp
  show ?thesis
    unfolding splitLoop.simps Let_def a b c
    using update_last[OF assms, of r]
    by (simp add: Minutes_eq_30 Minutes_le_0 split: option.splits)
qed

lemma splitLoop_concat:
  assumes "rr \<noteq> []" "splitLoop res rs t rr (length rr - 1) = (out, None)"
  shows "concat (map Reads out) = concat (map Reads rr) @ rs"
  using assms
proof (induction rs arbitrary: t rr)
  case Nil
  then show ?case by simp
next
  case (Cons r rs)
  have ne2: "rr @ [shallowCopyResult res] \<noteq> []" by simp
  note p1 = appendLast_props[OF Cons.prems(1), of r]
  note p2 = appendLast_props[OF ne2, of r]
  from Cons.prems(2) show ?case
    unfolding splitLoop_step[OF Cons.prems(1)]
    using Cons.IH[of "appendLast rr r" "EndTime r"]
      Cons.IH[of "appendLast (rr @ [shallowCopyResult res]) r" "EndTime r"] p1 p2
    by (auto simp: shallowCopyResult_def split: option.splits if_splits)
qed

lemma splitTimes_concat:
  assumes "splitTimes res = (rr, None)"
  shows "concat (map Reads rr) = Reads res"
  using splitLoop_concat[of "[shallowCopyResult res]" res "Reads res" zeroTime rr] assms
  by (simp add: splitTimes_def shallowCopyResult_def)

subsection \<open>splitTimes: the blocks\<close>

lemma appendLast_butlast_last:
  "butlast (appendLast rr r) = butlast rr \<and>
   last (appendLast rr r) = (last rr)\<lparr>Reads := Reads (last rr) @ [r]\<rparr>"
  by (simp add: appendLast_def)

lemma runsAfter_ne: "runsAfter p rs \<noteq> []"
  by (cases rs) (simp_all add: Let_def)

lemma splitLoop_runs:
  assumes "rr \<noteq> []"
    and "\<forall>r\<in>set rs. halfHourAligned (EndTime r) \<and> \<not> IsZero (EndTime r)"
    and "\<not> IsZero (EndTime q)"
    and "successively (\<lambda>a b. 0 < delta a b) (q # rs)"
  shows "splitLoop res rs (EndTime q) rr (length rr - 1) =
           (butlast rr @
              [(last rr)\<lparr>Reads := Reads (last rr) @ hd (runsAfter (EndTime q) rs)\<rparr>] @
              map (\<lambda>c. res\<lparr>Reads := c\<rparr>) (tl (runsAfter (EndTime q) rs)), None)"
  using assms
proof (induction rs arbitrary: q rr)
  case Nil
  then show ?case by simp
next
  case (Cons r rs)
  let ?R = "runsAfter (EndTime r) rs"
  from Cons.prems(2) have al: "isHalfSharp (EndTime r) = None" and nz: "\<not> IsZero (EndTime r)"
    and rest: "\<forall>r\<in>set rs. halfHourAligned (EndTime r) \<and> \<not> IsZero (EndTime r)"
    by (simp_all add: isHalfSharp_None)
  from Cons.prems(4) have pos: "0 < Sub (EndTime r) (EndTime q)"
    and succ: "successively (\<lambda>a b. 0 < delta a b) (r # rs)"
    by (simp_all add: delta_def)
  show ?case
  proof (cases "Sub (EndTime r) (EndTime q) = 30 * Minute")
    case True
    have ne: "appendLast rr r \<noteq> []" using appendLast_props[OF Cons.prems(1)] by simp
    from Cons.IH[OF ne rest nz succ] True al Cons.prems(3) show ?thesis
      unfolding splitLoop_step[OF Cons.prems(1)]
      by (simp add: appendLast_butlast_last Let_def)
  next
    case False
    let ?rr = "rr @ [shallowCopyResult res]"
    have ne: "appendLast ?rr r \<noteq> []" using appendLast_props[of ?rr r] by simp
    have bl: "butlast rr @ [last rr] = rr" using Cons.prems(1) by simp
    from Cons.IH[OF ne rest nz succ] False al Cons.prems(3) pos bl show ?thesis
      unfolding splitLoop_step[OF Cons.prems(1)]
      by (simp add: appendLast_butlast_last Let_def shallowCopyResult_def)
  qed
qed

lemma splitTimes_runs:
  assumes "\<forall>r\<in>set (Reads res). halfHourAligned (EndTime r) \<and> \<not> IsZero (EndTime r)"
    and "successively (\<lambda>a b. 0 < delta a b) (Reads res)"
  shows "splitTimes res = (map (\<lambda>c. res\<lparr>Reads := c\<rparr>) (runs (Reads res)), None)"
proof (cases "Reads res")
  case Nil
  then show ?thesis by (simp add: splitTimes_def shallowCopyResult_def)
next
  case (Cons r rs)
  have ne: "[shallowCopyResult res] \<noteq> []" by simp
  have z: "IsZero zeroTime" by (simp add: IsZero_def zeroTime_def)
  from assms Cons have al: "isHalfSharp (EndTime r) = None" and nz: "\<not> IsZero (EndTime r)"
    and rest: "\<forall>r\<in>set rs. halfHourAligned (EndTime r) \<and> \<not> IsZero (EndTime r)"
    and succ: "successively (\<lambda>a b. 0 < delta a b) (r # rs)"
    by (simp_all add: isHalfSharp_None)
  have ne2: "appendLast [shallowCopyResult res] r \<noteq> []" by (simp add: appendLast_def)
  have "splitTimes res =
          splitLoop res rs (EndTime r) (appendLast [shallowCopyResult res] r)
            (length (appendLast [shallowCopyResult res] r) - 1)"
    using splitLoop_step[OF ne, of res r rs zeroTime] al z Cons
    by (simp add: splitTimes_def)
  also have "\<dots> = (map (\<lambda>c. res\<lparr>Reads := c\<rparr>) (runs (Reads res)), None)"
    unfolding splitLoop_runs[OF ne2 rest nz succ]
    using Cons by (simp add: appendLast_def shallowCopyResult_def Let_def)
  finally show ?thesis .
qed

lemma successively_halfHourApart_Cons:
  "successively halfHourApart (r # c) \<longleftrightarrow>
     (c = [] \<or> Sub (EndTime (hd c)) (EndTime r) = 30 * Minute \<and> successively halfHourApart c)"
  by (simp add: successively_Cons halfHourApart_def delta_def)

lemma lastTime_Cons: "lastTime p (r # c) = lastTime (EndTime r) c"
  by (simp add: lastTime_def)

lemma runsAfter_props:
  "concat (runsAfter p rs) = rs \<and>
   (\<forall>c\<in>set (runsAfter p rs). successively halfHourApart c) \<and>
   (hd (runsAfter p rs) \<noteq> [] \<longrightarrow> Sub (EndTime (hd (hd (runsAfter p rs)))) p = 30 * Minute) \<and>
   (\<forall>c\<in>set (tl (runsAfter p rs)). c \<noteq> []) \<and>
   (tl (runsAfter p rs) \<noteq> [] \<longrightarrow>
      Sub (EndTime (hd (hd (tl (runsAfter p rs))))) (lastTime p (hd (runsAfter p rs)))
        \<noteq> 30 * Minute) \<and>
   successively gapBetween (tl (runsAfter p rs))"
proof (induction rs arbitrary: p)
  case Nil
  show ?case by simp
next
  case (Cons r rs)
  let ?R = "runsAfter (EndTime r) rs"
  obtain c cs where R: "?R = c # cs" using runsAfter_ne[of "EndTime r" rs] by (cases ?R) auto
  from Cons.IH[of "EndTime r"] R
  have cat: "c @ concat cs = rs"
    and chains: "successively halfHourApart c" "\<forall>d\<in>set cs. successively halfHourApart d"
    and first: "c \<noteq> [] \<longrightarrow> Sub (EndTime (hd c)) (EndTime r) = 30 * Minute"
    and ne: "\<forall>d\<in>set cs. d \<noteq> []"
    and gap: "cs \<noteq> [] \<longrightarrow> Sub (EndTime (hd (hd cs))) (lastTime (EndTime r) c) \<noteq> 30 * Minute"
    and gaps: "successively gapBetween cs"
    by simp_all
  have chain: "successively halfHourApart (r # c)"
    using chains(1) first by (auto simp: successively_halfHourApart_Cons)
  have gapc: "successively gapBetween ((r # c) # cs)"
    using gap gaps
    by (auto simp: successively_Cons gapBetween_def delta_def lastTime_def)
  show ?case
  proof (cases "Sub (EndTime r) p = 30 * Minute")
    case True
    then have "runsAfter p (r # rs) = (r # c) # cs" using R by (simp add: Let_def)
    then show ?thesis
      using cat chain chains(2) True ne gap gaps by (simp add: lastTime_Cons)
  next
    case False
    then have "runsAfter p (r # rs) = [] # (r # c) # cs" using R by (simp add: Let_def)
    then show ?thesis
      using cat chain chains(2) False ne gapc by (simp add: lastTime_def)
  qed
qed

lemma runs_props:
  "concat (runs rs) = rs \<and> runs rs \<noteq> [] \<and>
   (\<forall>c\<in>set (runs rs). successively halfHourApart c) \<and>
   (rs \<noteq> [] \<longrightarrow> (\<forall>c\<in>set (runs rs). c \<noteq> [])) \<and>
   successively gapBetween (runs rs)"
proof (cases rs)
  case Nil
  then show ?thesis by simp
next
  case (Cons r rs')
  let ?R = "runsAfter (EndTime r) rs'"
  obtain c cs where R: "?R = c # cs" using runsAfter_ne[of "EndTime r" rs'] by (cases ?R) auto
  from runsAfter_props[of "EndTime r" rs'] R
  have cat: "c @ concat cs = rs'"
    and chains: "successively halfHourApart c" "\<forall>d\<in>set cs. successively halfHourApart d"
    and first: "c \<noteq> [] \<longrightarrow> Sub (EndTime (hd c)) (EndTime r) = 30 * Minute"
    and ne: "\<forall>d\<in>set cs. d \<noteq> []"
    and gap: "cs \<noteq> [] \<longrightarrow> Sub (EndTime (hd (hd cs))) (lastTime (EndTime r) c) \<noteq> 30 * Minute"
    and gaps: "successively gapBetween cs"
    by simp_all
  have chain: "successively halfHourApart (r # c)"
    using chains(1) first by (auto simp: successively_halfHourApart_Cons)
  have gapc: "successively gapBetween ((r # c) # cs)"
    using gap gaps
    by (auto simp: successively_Cons gapBetween_def delta_def lastTime_def)
  have "runs rs = (r # c) # cs" using Cons R by (simp add: Let_def)
  then show ?thesis using Cons cat chain chains(2) ne gapc by simp
qed

lemma splitLoop_unsorted:
  assumes "rr \<noteq> []"
    and "\<forall>r\<in>set (pre @ [b]). halfHourAligned (EndTime r)"
    and "\<forall>r\<in>set (a # pre). \<not> IsZero (EndTime r)"
    and "successively (\<lambda>a b. 0 < delta a b) (a # pre)"
    and "delta (last (a # pre)) b \<le> 0"
  shows "snd (splitLoop res (pre @ b # post) (EndTime a) rr (length rr - 1)) =
           Some (ErrNotSorted (EndTime (last (a # pre))) (EndTime b))"
  using assms
proof (induction pre arbitrary: a rr)
  case Nil
  then have "isHalfSharp (EndTime b) = None" "\<not> IsZero (EndTime a)"
    "Sub (EndTime b) (EndTime a) \<le> 0" "Sub (EndTime b) (EndTime a) \<noteq> 30 * Minute"
    by (simp_all add: isHalfSharp_None delta_def Minute_def Second_def Nanosecond_def)
  then show ?case
    unfolding append_Nil splitLoop_step[OF Nil.prems(1)] by simp
next
  case (Cons c pre)
  from Cons.prems have al: "isHalfSharp (EndTime c) = None" and nz: "\<not> IsZero (EndTime a)"
    and pos: "0 < Sub (EndTime c) (EndTime a)"
    and p2: "\<forall>r\<in>set (pre @ [b]). halfHourAligned (EndTime r)"
    and p3: "\<forall>r\<in>set (c # pre). \<not> IsZero (EndTime r)"
    and p4: "successively (\<lambda>a b. 0 < delta a b) (c # pre)"
    and p5: "delta (last (c # pre)) b \<le> 0"
    by (simp_all add: isHalfSharp_None delta_def)
  have ne1: "appendLast rr c \<noteq> []" using appendLast_props[OF Cons.prems(1)] by simp
  have ne2: "appendLast (rr @ [shallowCopyResult res]) c \<noteq> []"
    using appendLast_props[of "rr @ [shallowCopyResult res]" c] by simp
  from Cons.IH[OF ne1 p2 p3 p4 p5] Cons.IH[OF ne2 p2 p3 p4 p5] al nz pos show ?case
    unfolding append_Cons splitLoop_step[OF Cons.prems(1)] by simp
qed

lemma splitTimes_unsorted:
  assumes al: "\<forall>r\<in>set (Reads res). halfHourAligned (EndTime r) \<and> \<not> IsZero (EndTime r)"
    and dec: "Reads res = pre @ a # b # post"
    and asc: "successively (\<lambda>a b. 0 < delta a b) (pre @ [a])"
    and neg: "delta a b \<le> 0"
  shows "snd (splitTimes res) = Some (ErrNotSorted (EndTime a) (EndTime b))"
proof -
  obtain x xs where x: "pre @ [a] = x # xs" by (cases "pre @ [a]") auto
  then have la: "last (x # xs) = a" by (metis last_snoc)
  have rd: "Reads res = x # xs @ b # post" using dec x by (metis append.assoc append_Cons append_Nil)
  have ne: "[shallowCopyResult res] \<noteq> []" by simp
  have z: "IsZero zeroTime" by (simp add: IsZero_def zeroTime_def)
  have ne2: "appendLast [shallowCopyResult res] x \<noteq> []" by (simp add: appendLast_def)
  from al rd have alx: "isHalfSharp (EndTime x) = None" by (simp add: isHalfSharp_None)
  from al rd have p2: "\<forall>r\<in>set (xs @ [b]). halfHourAligned (EndTime r)" by auto
  from al rd have p3: "\<forall>r\<in>set (x # xs). \<not> IsZero (EndTime r)" by auto
  from asc x have p4: "successively (\<lambda>a b. 0 < delta a b) (x # xs)" by simp
  from neg la have p5: "delta (last (x # xs)) b \<le> 0" by simp
  have "splitTimes res =
          splitLoop res (xs @ b # post) (EndTime x) (appendLast [shallowCopyResult res] x)
            (length (appendLast [shallowCopyResult res] x) - 1)"
    using splitLoop_step[OF ne, of res x "xs @ b # post" zeroTime] alx z rd
    by (simp add: splitTimes_def)
  with splitLoop_unsorted[OF ne2 p2 p3 p4 p5, of res post] la show ?thesis by simp
qed

lemmas zone_simps = halfHourAligned_def Time_Minute_def Time_Second_def Time_Nanosecond_def
  localSec_def Zone_def unixSec_def UTC_def IsZero_def delta_def halfHourApart_def
  gapBetween_def

text \<open>
  C5. Take a series whose readings are all on the half hour, none of them Go's zero time
  (1 January of year 1, 00:00 UTC, which the loop takes for "no reading yet"; in
  Europe/Dublin that instant reads 23:34:39, so a reading on the half hour is never it).
  If the series is strictly ascending, \<^verbatim>\<open>splitTimes\<close> returns without error blocks that,
  put end to end, are the series (so they are in ascending order and do not overlap, and
  the first reading opens the first block); inside a block neighbours are exactly 30
  minutes apart, and between a block and the next the step is not 30 minutes, so the
  blocks are maximal; every block carries the identifiers of the series and, unless the
  series is empty, at least one reading. If two neighbours are not ascending, the first such
  pair makes \<^verbatim>\<open>splitTimes\<close> fail with the "data is not sorted" error for that pair.
\<close>

theorem splitTimes_segments:
  assumes "\<forall>r\<in>set (Reads res). halfHourAligned (EndTime r) \<and> \<not> IsZero (EndTime r)"
  shows "(successively (\<lambda>a b. 0 < delta a b) (Reads res) \<longrightarrow>
            (\<exists>rr. splitTimes res = (rr, None) \<and> rr \<noteq> [] \<and>
                  concat (map Reads rr) = Reads res \<and>
                  (Reads res \<noteq> [] \<longrightarrow> hd (Reads (hd rr)) = hd (Reads res)) \<and>
                  (\<forall>s\<in>set rr. successively halfHourApart (Reads s) \<and>
                               shallowCopyResult s = shallowCopyResult res \<and>
                               (Reads res \<noteq> [] \<longrightarrow> Reads s \<noteq> [])) \<and>
                  successively (\<lambda>s s'. gapBetween (Reads s) (Reads s')) rr)) \<and>
         (\<forall>pre a b post.
            Reads res = pre @ a # b # post \<and>
            successively (\<lambda>a b. 0 < delta a b) (pre @ [a]) \<and> delta a b \<le> 0 \<longrightarrow>
            snd (splitTimes res) = Some (ErrNotSorted (EndTime a) (EndTime b)))"
proof (intro conjI impI allI)
  assume asc: "successively (\<lambda>a b. 0 < delta a b) (Reads res)"
  let ?rr = "map (\<lambda>c. res\<lparr>Reads := c\<rparr>) (runs (Reads res))"
  note p = runs_props[of "Reads res"]
  have run: "splitTimes res = (?rr, None)" by (rule splitTimes_runs[OF assms asc])
  have rd: "map Reads ?rr = runs (Reads res)" by (simp add: comp_def)
  have ne: "?rr \<noteq> []" using p by simp
  have cat: "concat (map Reads ?rr) = Reads res" using p rd by simp
  have blocks: "\<forall>s\<in>set ?rr. successively halfHourApart (Reads s) \<and>
                   shallowCopyResult s = shallowCopyResult res \<and>
                   (Reads res \<noteq> [] \<longrightarrow> Reads s \<noteq> [])"
    using p by (auto simp: shallowCopyResult_def)
  have gaps: "successively (\<lambda>s s'. gapBetween (Reads s) (Reads s')) ?rr"
    using p by (simp add: successively_map)
  have first: "Reads res \<noteq> [] \<longrightarrow> hd (Reads (hd ?rr)) = hd (Reads res)"
  proof
    assume "Reads res \<noteq> []"
    then obtain r rs where "Reads res = r # rs" by (cases "Reads res") auto
    then show "hd (Reads (hd ?rr)) = hd (Reads res)" by (simp add: Let_def)
  qed
  from run ne cat first blocks gaps
  show "\<exists>rr. splitTimes res = (rr, None) \<and> rr \<noteq> [] \<and>
                  concat (map Reads rr) = Reads res \<and>
                  (Reads res \<noteq> [] \<longrightarrow> hd (Reads (hd rr)) = hd (Reads res)) \<and>
                  (\<forall>s\<in>set rr. successively halfHourApart (Reads s) \<and>
                               shallowCopyResult s = shallowCopyResult res \<and>
                               (Reads res \<noteq> [] \<longrightarrow> Reads s \<noteq> [])) \<and>
                  successively (\<lambda>s s'. gapBetween (Reads s) (Reads s')) rr"
    by blast
next
  fix pre a b post
  assume "Reads res = pre @ a # b # post \<and>
            successively (\<lambda>a b. 0 < delta a b) (pre @ [a]) \<and> delta a b \<le> 0"
  then show "snd (splitTimes res) = Some (ErrNotSorted (EndTime a) (EndTime b))"
    using splitTimes_unsorted[OF assms] by blast
qed


lemma gapSeries_ok:
  "\<forall>r\<in>set (Reads gapSeries). halfHourAligned (EndTime r) \<and> \<not> IsZero (EndTime r)"
  by (simp add: gapSeries_def zone_simps time_simps)

lemma unsortedSeries_ok:
  "\<forall>r\<in>set (Reads unsortedSeries). halfHourAligned (EndTime r) \<and> \<not> IsZero (EndTime r)"
  by (simp add: unsortedSeries_def zone_simps time_simps)

lemma splitTimes_gapSeries:
  "splitTimes gapSeries =
     ([gapSeries\<lparr>Reads := [\<lparr>Value = 1, EndTime = utc 1673821800\<rparr>,
                              \<lparr>Value = 2, EndTime = utc 1673823600\<rparr>]\<rparr>,
       gapSeries\<lparr>Reads := [\<lparr>Value = 3, EndTime = utc 1673836200\<rparr>]\<rparr>], None)"
  by (simp add: splitTimes_def gapSeries_def shallowCopyResult_def isHalfSharp_def
      zeroTime_def Let_def zone_simps time_simps)

theorem splitTimes_segments_witness:
  "list_all (\<lambda>r. halfHourAligned (EndTime r) \<and> \<not> IsZero (EndTime r)) (Reads gapSeries) \<and>
   successively (\<lambda>a b. 0 < delta a b) (Reads gapSeries) \<and>
   splitTimes gapSeries =
     ([gapSeries\<lparr>Reads := [\<lparr>Value = 1, EndTime = utc 1673821800\<rparr>,
                              \<lparr>Value = 2, EndTime = utc 1673823600\<rparr>]\<rparr>,
       gapSeries\<lparr>Reads := [\<lparr>Value = 3, EndTime = utc 1673836200\<rparr>]\<rparr>], None) \<and>
   gapBetween [\<lparr>Value = 1 :: real, EndTime = utc 1673821800\<rparr>,
               \<lparr>Value = 2, EndTime = utc 1673823600\<rparr>]
              [\<lparr>Value = 3, EndTime = utc 1673836200\<rparr>] \<and>
   list_all (\<lambda>r. halfHourAligned (EndTime r) \<and> \<not> IsZero (EndTime r)) (Reads unsortedSeries) \<and>
   snd (splitTimes unsortedSeries) =
     Some (ErrNotSorted (utc 1673823600) (utc 1673821800))"
proof -
  have asc: "successively (\<lambda>a b. 0 < delta a b) (Reads gapSeries)"
    by (simp add: gapSeries_def zone_simps time_simps)
  from splitTimes_segments[OF gapSeries_ok] asc
  have "\<exists>rr. splitTimes gapSeries = (rr, None) \<and>
          successively (\<lambda>s s'. gapBetween (Reads s) (Reads s')) rr"
    by blast
  then have gap: "gapBetween [\<lparr>Value = 1 :: real, EndTime = utc 1673821800\<rparr>,
               \<lparr>Value = 2, EndTime = utc 1673823600\<rparr>]
              [\<lparr>Value = 3, EndTime = utc 1673836200\<rparr>]"
    by (simp add: splitTimes_gapSeries)
  have dec: "Reads unsortedSeries =
      [\<lparr>Value = 1, EndTime = utc 1673821800\<rparr>] @ \<lparr>Value = 2, EndTime = utc 1673823600\<rparr> #
      \<lparr>Value = 3, EndTime = utc 1673821800\<rparr> # []"
    by (simp add: unsortedSeries_def)
  have pre: "successively (\<lambda>a b. 0 < delta a b)
      ([\<lparr>Value = 1 :: real, EndTime = utc 1673821800\<rparr>] @ [\<lparr>Value = 2, EndTime = utc 1673823600\<rparr>])"
    by (simp add: zone_simps time_simps)
  have neg: "delta \<lparr>Value = 2 :: real, EndTime = utc 1673823600\<rparr>
                   \<lparr>Value = 3 :: real, EndTime = utc 1673821800\<rparr> \<le> 0"
    by (simp add: zone_simps time_simps)
  from splitTimes_segments[OF unsortedSeries_ok] dec pre neg
  have "snd (splitTimes unsortedSeries) =
     Some (ErrNotSorted (EndTime \<lparr>Value = 2 :: real, EndTime = utc 1673823600\<rparr>)
                        (EndTime \<lparr>Value = 3 :: real, EndTime = utc 1673821800\<rparr>))"
    by blast
  with gapSeries_ok unsortedSeries_ok asc gap splitTimes_gapSeries show ?thesis
    by (simp add: list_all_iff)
qed

lemma splitLoop_first_misaligned:
  assumes "\<forall>x\<in>set pre. halfHourAligned (EndTime x)"
    and "pre = [] \<or> IsZero t \<or> 0 < Sub (EndTime (hd pre)) t"
    and "successively (\<lambda>a b. 0 < delta a b) pre"
    and "\<not> halfHourAligned (EndTime r)"
  shows "splitLoop res (pre @ r # post) t rr idx = ([], Some (ErrNotAligned (EndTime r)))"
  using assms(1-3)
proof (induction pre arbitrary: t rr idx)
  case Nil
  from assms(4) have "isHalfSharp (EndTime r) = Some (ErrNotAligned (EndTime r))"
    by (simp add: isHalfSharp_Some)
  then show ?case by simp
next
  case (Cons c pre)
  from Cons.prems(1) have al: "isHalfSharp (EndTime c) = None"
    and rest: "\<forall>x\<in>set pre. halfHourAligned (EndTime x)"
    by (simp_all add: isHalfSharp_None)
  from Cons.prems(3) have nxt: "pre = [] \<or> IsZero (EndTime c) \<or> 0 < Sub (EndTime (hd pre)) (EndTime c)"
    and asc: "successively (\<lambda>a b. 0 < delta a b) pre"
    by (auto simp: successively_Cons delta_def)
  note IH = Cons.IH[OF rest nxt asc]
  show ?case
  proof (cases "IsZero t")
    case True
    with al IH show ?thesis by simp
  next
    case False
    with Cons.prems(2) have "0 < Sub (EndTime c) t" by simp
    then have "\<not> Minutes (Sub (EndTime c) t) \<le> 0" by (simp add: Minutes_le_0)
    with al False IH show ?thesis by (simp add: Let_def)
  qed
qed

lemma splitTimes_first_misaligned:
  assumes "Reads res = pre @ r # post"
    and "\<forall>x\<in>set pre. halfHourAligned (EndTime x)"
    and "successively (\<lambda>a b. 0 < delta a b) pre"
    and "\<not> halfHourAligned (EndTime r)"
  shows "splitTimes res = ([], Some (ErrNotAligned (EndTime r)))"
proof -
  have "IsZero zeroTime" by (simp add: IsZero_def zeroTime_def)
  then have "pre = [] \<or> IsZero zeroTime \<or> 0 < Sub (EndTime (hd pre)) zeroTime" by simp
  from splitLoop_first_misaligned[OF assms(2) this assms(3,4)] assms(1)
  show ?thesis by (simp add: splitTimes_def)
qed

text \<open>
  C8. \<^verbatim>\<open>splitTimes\<close> fails with the alignment error exactly for a reading off the half
  hour. The first reading of the series that is off the half hour, the readings before it
  being on the half hour and strictly ascending, makes \<^verbatim>\<open>splitTimes\<close> return no block and
  the alignment error for that reading's timestamp. Conversely, when it fails with the
  alignment error, the error names the timestamp of a reading of the series that is off the
  half hour, so a reading on the half hour never fails the check. Whatever comes first, a
  series with a reading off the half hour never passes; and when \<^verbatim>\<open>splitTimes\<close> returns
  without error the readings are in the blocks as they were, none changed, dropped or moved.
\<close>

theorem splitTimes_alignment:
  "(\<forall>pre r post.
      Reads res = pre @ r # post \<and> (\<forall>x\<in>set pre. halfHourAligned (EndTime x)) \<and>
      successively (\<lambda>a b. 0 < delta a b) pre \<and> \<not> halfHourAligned (EndTime r) \<longrightarrow>
      splitTimes res = ([], Some (ErrNotAligned (EndTime r)))) \<and>
   ((\<exists>r\<in>set (Reads res). \<not> halfHourAligned (EndTime r)) \<longrightarrow> snd (splitTimes res) \<noteq> None) \<and>
   (\<forall>t. snd (splitTimes res) = Some (ErrNotAligned t) \<longrightarrow>
          (\<exists>r\<in>set (Reads res). EndTime r = t \<and> \<not> halfHourAligned t)) \<and>
   (snd (splitTimes res) = None \<longrightarrow> concat (map Reads (fst (splitTimes res))) = Reads res)"
proof (intro conjI impI allI)
  fix pre r post
  assume "Reads res = pre @ r # post \<and> (\<forall>x\<in>set pre. halfHourAligned (EndTime x)) \<and>
      successively (\<lambda>a b. 0 < delta a b) pre \<and> \<not> halfHourAligned (EndTime r)"
  then show "splitTimes res = ([], Some (ErrNotAligned (EndTime r)))"
    using splitTimes_first_misaligned[of res pre r post] by blast
next
  assume "\<exists>r\<in>set (Reads res). \<not> halfHourAligned (EndTime r)"
  then show "snd (splitTimes res) \<noteq> None"
    unfolding splitTimes_def by (rule splitLoop_misaligned)
next
  fix t assume "snd (splitTimes res) = Some (ErrNotAligned t)"
  then show "\<exists>r\<in>set (Reads res). EndTime r = t \<and> \<not> halfHourAligned t"
    unfolding splitTimes_def by (rule splitLoop_NotAligned)
next
  assume "snd (splitTimes res) = None"
  then have "splitTimes res = (fst (splitTimes res), None)" by (simp add: prod_eq_iff)
  then show "concat (map Reads (fst (splitTimes res))) = Reads res"
    by (rule splitTimes_concat)
qed

theorem splitTimes_alignment_witness:
  "list_all (\<lambda>x. halfHourAligned (EndTime x))
     [\<lparr>Value = 1 :: real, EndTime = utc 1673821800\<rparr>, \<lparr>Value = 2, EndTime = utc 1673823600\<rparr>] \<and>
   successively (\<lambda>a b. 0 < delta a b)
     [\<lparr>Value = 1 :: real, EndTime = utc 1673821800\<rparr>, \<lparr>Value = 2, EndTime = utc 1673823600\<rparr>] \<and>
   Time_Minute (utc 1673825580) = 33 \<and>
   \<not> halfHourAligned (utc 1673825580) \<and>
   splitTimes misalignedThird = ([], Some (ErrNotAligned (utc 1673825580))) \<and>
   splitTimes misalignedSeries = ([], Some (ErrNotAligned (utc 1673825580))) \<and>
   snd (splitTimes gapSeries) = None \<and>
   concat (map Reads (fst (splitTimes gapSeries))) = Reads gapSeries"
proof -
  let ?a = "\<lparr>Value = 1 :: real, EndTime = utc 1673821800\<rparr>"
  let ?b = "\<lparr>Value = 2 :: real, EndTime = utc 1673823600\<rparr>"
  let ?c = "\<lparr>Value = 3 :: real, EndTime = utc 1673825580\<rparr>"
  let ?d = "\<lparr>Value = 1 :: real, EndTime = utc 1673825580\<rparr>"
  let ?e = "[] :: real Read list"
  have al: "\<forall>x\<in>set [?a, ?b]. halfHourAligned (EndTime x)"
    by (simp add: zone_simps time_simps)
  have asc: "successively (\<lambda>a b. 0 < delta a b) [?a, ?b]"
    by (simp add: zone_simps time_simps)
  have m33: "Time_Minute (utc 1673825580) = 33" by (simp add: zone_simps time_simps)
  have mis: "\<not> halfHourAligned (utc 1673825580)" by (simp add: zone_simps time_simps)
  have dec3: "Reads misalignedThird = [?a, ?b] @ ?c # []" by (simp add: misalignedThird_def)
  have dec1: "Reads misalignedSeries = [] @ ?d # []" by (simp add: misalignedSeries_def)
  from splitTimes_alignment[of misalignedThird]
  have "Reads misalignedThird = [?a, ?b] @ ?c # [] \<and>
        (\<forall>x\<in>set [?a, ?b]. halfHourAligned (EndTime x)) \<and>
        successively (\<lambda>a b. 0 < delta a b) [?a, ?b] \<and> \<not> halfHourAligned (EndTime ?c) \<longrightarrow>
        splitTimes misalignedThird = ([], Some (ErrNotAligned (EndTime ?c)))"
    by blast
  with dec3 al asc mis
  have r3: "splitTimes misalignedThird = ([], Some (ErrNotAligned (utc 1673825580)))" by simp
  from splitTimes_alignment[of misalignedSeries]
  have "Reads misalignedSeries = ?e @ ?d # [] \<and>
        (\<forall>x\<in>set ?e. halfHourAligned (EndTime x)) \<and>
        successively (\<lambda>a b. 0 < delta a b) ?e \<and> \<not> halfHourAligned (EndTime ?d) \<longrightarrow>
        splitTimes misalignedSeries = ([], Some (ErrNotAligned (EndTime ?d)))"
    by blast
  with dec1 mis
  have r1: "splitTimes misalignedSeries = ([], Some (ErrNotAligned (utc 1673825580)))" by simp
  have ok: "snd (splitTimes gapSeries) = None" by (simp add: splitTimes_gapSeries)
  from splitTimes_alignment[of gapSeries] ok
  have cat: "concat (map Reads (fst (splitTimes gapSeries))) = Reads gapSeries" by blast
  from al asc m33 mis r3 r1 ok cat show ?thesis by (simp add: list_all_iff)
qed


section \<open>The files of the tests, evaluated\<close>

subsection \<open>The autumn file and its day, 29 October 2023\<close>

lemmas civil_eval = daysFromCivil_def daysFromShifted_def doeOfDate_def yearOf_def yearOfEra_def
  yearFix_def monthOfMp_def doyOf_def yoeOf_def sundayOnOrBefore_def lastSunday_def
  summerStart_def summerEnd_def
lemma summer_2023:
  "summerStart 2023 = 1679792400" "summerEnd 2023 = 1698541200" "summerStart 2024 = 1711846800"
  by (simp_all add: civil_eval)
lemma yearOf_autumn_2023:
  "yearOf 1698534000 = 2023" "yearOf 1698535800 = 2023" "yearOf 1698537600 = 2023"
  "yearOf 1698539400 = 2023" "yearOf 1698541200 = 2023" "yearOf 1698543000 = 2023"
  "yearOf 1698544800 = 2023"
  by (simp_all add: civil_eval)
lemma ireland_autumn_2023:
  "irelandTimezone 1698534000 = \<lparr>zName = ''IST'', zOffset = 3600, zStart = 1679792400, zEnd = 1698541200\<rparr>"
  "irelandTimezone 1698535800 = \<lparr>zName = ''IST'', zOffset = 3600, zStart = 1679792400, zEnd = 1698541200\<rparr>"
  "irelandTimezone 1698537600 = \<lparr>zName = ''IST'', zOffset = 3600, zStart = 1679792400, zEnd = 1698541200\<rparr>"
  "irelandTimezone 1698539400 = \<lparr>zName = ''IST'', zOffset = 3600, zStart = 1679792400, zEnd = 1698541200\<rparr>"
  "irelandTimezone 1698541200 = \<lparr>zName = ''GMT'', zOffset = 0, zStart = 1698541200, zEnd = 1711846800\<rparr>"
  "irelandTimezone 1698543000 = \<lparr>zName = ''GMT'', zOffset = 0, zStart = 1698541200, zEnd = 1711846800\<rparr>"
  "irelandTimezone 1698544800 = \<lparr>zName = ''GMT'', zOffset = 0, zStart = 1698541200, zEnd = 1711846800\<rparr>"
  by (simp_all add: irelandTimezone_def irelandZone_def yearOf_autumn_2023 summer_2023)

lemma parse_autumn:
  "parseInLocation l ''29-10-2023 01:00'' = Some (Date 2023 10 29 1 0 l)"
  "parseInLocation l ''29-10-2023 00:30'' = Some (Date 2023 10 29 0 30 l)"
  "parseInLocation l ''29-10-2023 00:00'' = Some (Date 2023 10 29 0 0 l)"
  by (simp_all add: parseInLocation_def digitVal_def daysIn_def isLeap_def)

lemma Date_autumn:
  "Date 2023 10 29 1 0 irelandTimezone = dublin 1698541200"
  "Date 2023 10 29 0 30 irelandTimezone = dublin 1698535800"
  "Date 2023 10 29 0 0 irelandTimezone = dublin 1698534000"
  by (simp_all add: Date_def resolveZone_def adjustZone_def daysFromCivil_def daysFromShifted_def
      doeOfDate_def ireland_autumn_2023 dublin_def)

lemma validateHeader_ok:
  "validateHeader (Fields headerFormat # rows) = (None, 5, rows)"
  by (simp add: validateHeader_def csvRecord_def headerFormat_def)

lemma ingest_autumn:
  "ingest exampleFloat (parseInLocation irelandTimezone) autumnFile = Return (Inr autumnParsed)"
  by (simp add: ingest_def autumnFile_def validateHeader_ok dataRow_def csvRecord_def
      parseLine_def parse_autumn Date_autumn exampleFloat_def emptyResult_def autumnParsed_def
      series_def wantReadType_def)

lemma Zone_autumn:
  "Zone \<lparr>unixNano = 1698534000000000000, loc = irelandTimezone\<rparr> = (''IST'', 3600)"
  "Zone \<lparr>unixNano = 1698535800000000000, loc = irelandTimezone\<rparr> = (''IST'', 3600)"
  "Zone \<lparr>unixNano = 1698537600000000000, loc = irelandTimezone\<rparr> = (''IST'', 3600)"
  "Zone \<lparr>unixNano = 1698539400000000000, loc = irelandTimezone\<rparr> = (''IST'', 3600)"
  "Zone \<lparr>unixNano = 1698541200000000000, loc = irelandTimezone\<rparr> = (''GMT'', 0)"
  "Zone \<lparr>unixNano = 1698543000000000000, loc = irelandTimezone\<rparr> = (''GMT'', 0)"
  "Zone \<lparr>unixNano = 1698544800000000000, loc = irelandTimezone\<rparr> = (''GMT'', 0)"
  by (simp_all add: Zone_def unixSec_def ireland_autumn_2023)

lemmas dur_simps = Add_def Sub_def Equal_def Hour_def Minute_def Second_def Nanosecond_def
  minDuration_def maxDuration_def Minutes_def

lemma upt_4: "[0..<4] = [0, 1, 2, 3]"
  by (simp add: upt_rec[of _ "numeral _"] upt_rec[of _ "Suc _"])

lemma fixTimezone_autumn:
  "fixTimezone autumnParsed =
     series [(1 / 10, dublin 1698535800), (1 / 10, dublin 1698534000),
             (1 / 10, dublin 1698535800), (1 / 10, dublin 1698537600)]"
  by (simp add: fixTimezone_def autumnParsed_def series_def dublin_def upt_4
      fixTimezoneAt_def Let_def Zone_autumn dur_simps)

lemma HDF_ingest:
  "HDF parseFloat parseTime hdf =
     (case ingest parseFloat parseTime hdf of
        Panic \<Rightarrow> Panic
      | Return (Inl err) \<Rightarrow> Return ([], Some err)
      | Return (Inr res) \<Rightarrow> Return (splitTimes (fixTimezone res)))"
  by (simp add: HDF_def ingest_def split: prod.splits option.splits outcome.splits sum.splits)

lemma splitTimes_autumn:
  "splitTimes (series [(1 / 10, dublin 1698535800), (1 / 10, dublin 1698534000),
             (1 / 10, dublin 1698535800), (1 / 10, dublin 1698537600)]) =
     ([series [(1 / 10, dublin 1698535800)]],
      Some (ErrNotSorted (dublin 1698535800) (dublin 1698534000)))"
  by (simp add: splitTimes_def series_def dublin_def shallowCopyResult_def isHalfSharp_def
      zeroTime_def unixToInternal_def IsZero_def Let_def Time_Minute_def Time_Second_def
      Time_Nanosecond_def localSec_def unixSec_def Zone_autumn dur_simps)

lemma spec_autumn:
  "disambiguate_spec autumnParsed =
     series [(1 / 10, dublin 1698535800), (1 / 10, dublin 1698537600),
             (1 / 10, dublin 1698539400), (1 / 10, dublin 1698541200)]"
  by (simp add: disambiguate_spec_def autumnParsed_def series_def dublin_def upt_4
      disambiguateAt_spec_def Let_def Zone_autumn dur_simps)


subsection \<open>The meter identifier and the serial number\<close>

lemma csvRecord_Some: "csvRecord fpr l = Some (record, fpr') \<Longrightarrow> l = Fields record"
  by (cases l) (auto simp: csvRecord_def split: if_splits)

lemma csvRecord_5: "length row = 5 \<Longrightarrow> csvRecord 5 (Fields row) = Some (row, 5)"
  by (simp add: csvRecord_def)

lemma parseLine_Inr:
  "parseLine pf pt i record = Return (Inr p) \<Longrightarrow>
     lineMPRN p = record ! 0 \<and> lineSerialNumber p = record ! 1"
  by (auto simp: parseLine_def Let_def split: if_splits option.splits)

lemma parseLine_wellFormed:
  "wellFormedRow pf pt row \<Longrightarrow>
     \<exists>v t. parseLine pf pt i row =
       Return (Inr \<lparr>lineMPRN = row ! 0, lineSerialNumber = row ! 1, lineValue = v, lineEndTime = t\<rparr>)"
  by (auto simp: parseLine_def wellFormedRow_def Let_def)

lemma readData_ids:
  assumes "readData pf pt fpr i ls res = Return (Inr res')" "1 < i"
  shows "MPRN res' = MPRN res \<and> MeterSerialNumber res' = MeterSerialNumber res \<and>
         (\<forall>fs. Fields fs \<in> set ls \<longrightarrow> fs ! 0 = MPRN res \<and> fs ! 1 = MeterSerialNumber res)"
  using assms
proof (induction ls arbitrary: fpr i res)
  case Nil
  then show ?case by simp
next
  case (Cons l ls)
  from Cons.prems(1) obtain fields fpr' where rec: "csvRecord fpr l = Some (fields, fpr')"
    by (cases "csvRecord fpr l") auto
  then have l: "l = Fields fields" by (rule csvRecord_Some)
  from Cons.prems(1) rec obtain p where p: "parseLine pf pt i fields = Return (Inr p)"
    by (cases "parseLine pf pt i fields") (auto split: sum.splits)
  note ids = parseLine_Inr[OF p]
  from Cons.prems rec p have same: "MPRN res = lineMPRN p" "MeterSerialNumber res = lineSerialNumber p"
    and run: "readData pf pt fpr' (i + 1) ls
                (res\<lparr>Reads := Reads res @ [\<lparr>Value = lineValue p, EndTime = lineEndTime p\<rparr>]\<rparr>)
              = Return (Inr res')"
    by (auto split: if_splits)
  from Cons.IH[OF run] Cons.prems(2) same ids l show ?case by auto
qed

lemma readData_first:
  assumes "readData pf pt fpr 1 (Fields first # rest) res = Return (Inr res')"
  shows "MPRN res' = first ! 0 \<and> MeterSerialNumber res' = first ! 1 \<and>
         (\<forall>fs. Fields fs \<in> set rest \<longrightarrow> fs ! 0 = first ! 0 \<and> fs ! 1 = first ! 1)"
proof -
  from assms obtain fields fpr' where rec: "csvRecord fpr (Fields first) = Some (fields, fpr')"
    by (cases "csvRecord fpr (Fields first)") auto
  then have l: "first = fields" using csvRecord_Some by fastforce
  from assms rec obtain p where p: "parseLine pf pt 1 fields = Return (Inr p)"
    by (cases "parseLine pf pt 1 fields") (auto split: sum.splits)
  note ids = parseLine_Inr[OF p]
  from assms rec p have run: "readData pf pt fpr' (1 + 1) rest
       (res\<lparr>MPRN := lineMPRN p, MeterSerialNumber := lineSerialNumber p,
             ReadTypes := wantReadType,
             Reads := Reads res @ [\<lparr>Value = lineValue p, EndTime = lineEndTime p\<rparr>]\<rparr>)
       = Return (Inr res')"
    by simp
  from readData_ids[OF run] ids l show ?thesis by simp
qed

lemma readData_mismatch:
  assumes "1 < i"
    and "\<forall>x\<in>set pre. wellFormedRow pf pt x \<and> x ! 0 = MPRN res \<and> x ! 1 = MeterSerialNumber res"
    and "wellFormedRow pf pt row"
    and "row ! 0 \<noteq> MPRN res \<or> row ! 1 \<noteq> MeterSerialNumber res"
  shows "readData pf pt 5 i (map Fields pre @ Fields row # post) res =
           Return (Inl (if row ! 0 \<noteq> MPRN res then ErrMultipleMPRN (MPRN res) (row ! 0)
                        else ErrMultipleSerial (MeterSerialNumber res) (row ! 1)))"
  using assms
proof (induction pre arbitrary: i res)
  case Nil
  from Nil.prems(3) have len: "length row = 5" by (simp add: wellFormedRow_def)
  from parseLine_wellFormed[OF Nil.prems(3), of i] obtain v t where
    "parseLine pf pt i row =
       Return (Inr \<lparr>lineMPRN = row ! 0, lineSerialNumber = row ! 1, lineValue = v, lineEndTime = t\<rparr>)"
    by blast
  with Nil.prems(1,4) len show ?case by (auto simp: csvRecord_5)
next
  case (Cons x pre)
  from Cons.prems(2) have wf: "wellFormedRow pf pt x" and same: "x ! 0 = MPRN res" "x ! 1 = MeterSerialNumber res"
    and rest: "\<forall>y\<in>set pre. wellFormedRow pf pt y \<and> y ! 0 = MPRN res \<and> y ! 1 = MeterSerialNumber res"
    by simp_all
  from wf have len: "length x = 5" by (simp add: wellFormedRow_def)
  from parseLine_wellFormed[OF wf, of i] obtain v t where p:
    "parseLine pf pt i x =
       Return (Inr \<lparr>lineMPRN = x ! 0, lineSerialNumber = x ! 1, lineValue = v, lineEndTime = t\<rparr>)"
    by blast
  let ?res = "res\<lparr>Reads := Reads res @ [\<lparr>Value = v, EndTime = t\<rparr>]\<rparr>"
  have i': "1 < i + 1" using Cons.prems(1) by simp
  have IH: "readData pf pt 5 (i + 1) (map Fields pre @ Fields row # post) ?res =
           Return (Inl (if row ! 0 \<noteq> MPRN ?res then ErrMultipleMPRN (MPRN ?res) (row ! 0)
                        else ErrMultipleSerial (MeterSerialNumber ?res) (row ! 1)))"
    using Cons.IH[OF i', of ?res] rest Cons.prems(3,4) by simp
  from Cons.prems(1) p same len IH show ?case by (simp add: csvRecord_5)
qed


lemma update_meta:
  assumes "\<forall>s\<in>set rr. shallowCopyResult s = shallowCopyResult res"
  shows "\<forall>s\<in>set (rr[idx := (rr ! idx)\<lparr>Reads := X\<rparr>]).
           shallowCopyResult s = shallowCopyResult res"
proof (cases "idx < length rr")
  case True
  then have "shallowCopyResult (rr ! idx) = shallowCopyResult res" using assms by simp
  then have "shallowCopyResult ((rr ! idx)\<lparr>Reads := X\<rparr>) = shallowCopyResult res"
    by (simp add: shallowCopyResult_def)
  with assms show ?thesis
    using set_update_subset_insert[of rr idx "(rr ! idx)\<lparr>Reads := X\<rparr>"] by auto
next
  case False
  then show ?thesis using assms by (simp add: list_update_beyond)
qed

lemma splitLoop_meta:
  assumes "\<forall>s\<in>set rr. shallowCopyResult s = shallowCopyResult res"
  shows "\<forall>s\<in>set (fst (splitLoop res rs t rr idx)).
           shallowCopyResult s = shallowCopyResult res"
  using assms
proof (induction rs arbitrary: t rr idx)
  case Nil
  then show ?case by simp
next
  case (Cons r rs)
  have ext: "\<forall>s\<in>set (rr @ [shallowCopyResult res]). shallowCopyResult s = shallowCopyResult res"
    using Cons.prems by (auto simp: shallowCopyResult_def)
  note a = Cons.IH[OF update_meta[OF Cons.prems]]
  note b = Cons.IH[OF update_meta[OF ext]]
  show ?case
  proof (cases "isHalfSharp (EndTime r)")
    case (Some e)
    then show ?thesis by simp
  next
    case None
    show ?thesis
    proof (cases "IsZero t")
      case True
      have e: "splitLoop res (r # rs) t rr idx =
                 splitLoop res rs (EndTime r)
                   (rr[idx := (rr ! idx)\<lparr>Reads := Reads (rr ! idx) @ [r]\<rparr>]) idx"
        using None True by simp
      show ?thesis unfolding e by (rule a)
    next
      case False
      consider (eq) "Minutes (Sub (EndTime r) t) = 30"
        | (le) "Minutes (Sub (EndTime r) t) \<noteq> 30" "Minutes (Sub (EndTime r) t) \<le> 0"
        | (gap) "Minutes (Sub (EndTime r) t) \<noteq> 30" "\<not> Minutes (Sub (EndTime r) t) \<le> 0"
        by blast
      then show ?thesis
      proof cases
        case eq
        have e: "splitLoop res (r # rs) t rr idx =
                   splitLoop res rs (EndTime r)
                     (rr[idx := (rr ! idx)\<lparr>Reads := Reads (rr ! idx) @ [r]\<rparr>]) idx"
          using None False eq by simp
        show ?thesis unfolding e by (rule a)
      next
        case le
        have e: "splitLoop res (r # rs) t rr idx = (rr, Some (ErrNotSorted t (EndTime r)))"
          using None False le by simp
        show ?thesis unfolding e fst_conv by (rule Cons.prems)
      next
        case gap
        have e: "splitLoop res (r # rs) t rr idx =
                   splitLoop res rs (EndTime r)
                     ((rr @ [shallowCopyResult res])[idx + 1 :=
                        ((rr @ [shallowCopyResult res]) ! (idx + 1))
                          \<lparr>Reads := Reads ((rr @ [shallowCopyResult res]) ! (idx + 1)) @ [r]\<rparr>])
                     (idx + 1)"
          using None False gap by (simp add: Let_def)
        show ?thesis unfolding e by (rule b)
      qed
    qed
  qed
qed

lemma splitTimes_meta:
  "\<forall>s\<in>set (fst (splitTimes res)). shallowCopyResult s = shallowCopyResult res"
  unfolding splitTimes_def by (rule splitLoop_meta) (simp add: shallowCopyResult_def)

lemma shallowCopy_ids:
  "shallowCopyResult s = shallowCopyResult res \<Longrightarrow>
     MPRN s = MPRN res \<and> MeterSerialNumber s = MeterSerialNumber res \<and> ReadTypes s = ReadTypes res"
  by (cases s, cases res) (simp add: shallowCopyResult_def)


lemma HDF_rows:
  "HDF pf pt (Fields headerFormat # rows) =
     (case readData pf pt 5 1 rows emptyResult of
        Panic \<Rightarrow> Panic
      | Return (Inl err) \<Rightarrow> Return ([], Some err)
      | Return (Inr res) \<Rightarrow> Return (splitTimes (fixTimezone (res\<lparr>Reads := rev (Reads res)\<rparr>))))"
  by (simp add: HDF_def validateHeader_ok)

lemma HDF_success_ids:
  assumes "HDF pf pt (Fields headerFormat # Fields first # rest) = Return (rr, None)"
  shows "(\<forall>s\<in>set rr. MPRN s = first ! 0 \<and> MeterSerialNumber s = first ! 1) \<and>
         (\<forall>fs. Fields fs \<in> set rest \<longrightarrow> fs ! 0 = first ! 0 \<and> fs ! 1 = first ! 1)"
proof -
  from assms obtain res' where rd: "readData pf pt 5 1 (Fields first # rest) emptyResult = Return (Inr res')"
    and sp: "splitTimes (fixTimezone (res'\<lparr>Reads := rev (Reads res')\<rparr>)) = (rr, None)"
    unfolding HDF_rows by (auto split: outcome.splits sum.splits)
  note ids = readData_first[OF rd]
  let ?fixed = "fixTimezone (res'\<lparr>Reads := rev (Reads res')\<rparr>)"
  have m: "MPRN ?fixed = MPRN res'" "MeterSerialNumber ?fixed = MeterSerialNumber res'"
    by (simp_all add: fixTimezone_def)
  have "\<forall>s\<in>set rr. shallowCopyResult s = shallowCopyResult ?fixed"
    using splitTimes_meta[of ?fixed] sp by simp
  then have "\<forall>s\<in>set rr. MPRN s = MPRN ?fixed \<and> MeterSerialNumber s = MeterSerialNumber ?fixed"
    using shallowCopy_ids by blast
  with m ids show ?thesis by simp
qed

lemma HDF_mismatch:
  assumes rest: "rest = map Fields pre @ Fields row # post"
    and wf: "\<forall>x\<in>set (first # pre @ [row]). wellFormedRow pf pt x"
    and same: "\<forall>x\<in>set pre. x ! 0 = first ! 0 \<and> x ! 1 = first ! 1"
    and diff: "row ! 0 \<noteq> first ! 0 \<or> row ! 1 \<noteq> first ! 1"
  shows "HDF pf pt (Fields headerFormat # Fields first # rest) =
           Return ([], Some (if row ! 0 \<noteq> first ! 0 then ErrMultipleMPRN (first ! 0) (row ! 0)
                             else ErrMultipleSerial (first ! 1) (row ! 1)))"
proof -
  from wf have wf1: "wellFormedRow pf pt first" and wfr: "wellFormedRow pf pt row"
    and wfp: "\<forall>x\<in>set pre. wellFormedRow pf pt x"
    by simp_all
  from wf1 have len: "length first = 5" by (simp add: wellFormedRow_def)
  from parseLine_wellFormed[OF wf1, of 1] obtain v t where p:
    "parseLine pf pt 1 first =
       Return (Inr \<lparr>lineMPRN = first ! 0, lineSerialNumber = first ! 1, lineValue = v, lineEndTime = t\<rparr>)"
    by blast
  let ?res = "(emptyResult :: 'a Result)\<lparr>MPRN := first ! 0, MeterSerialNumber := first ! 1,
                ReadTypes := wantReadType,
                Reads := Reads (emptyResult :: 'a Result) @ [\<lparr>Value = v, EndTime = t\<rparr>]\<rparr>"
  have pre': "\<forall>x\<in>set pre. wellFormedRow pf pt x \<and> x ! 0 = MPRN ?res \<and> x ! 1 = MeterSerialNumber ?res"
    using wfp same by simp
  have diff': "row ! 0 \<noteq> MPRN ?res \<or> row ! 1 \<noteq> MeterSerialNumber ?res"
    using diff by simp
  have two: "(1::nat) < 1 + 1" by simp
  have "readData pf pt 5 1 (Fields first # rest) emptyResult =
          readData pf pt 5 (1 + 1) (map Fields pre @ Fields row # post) ?res"
    using p len rest by (simp add: csvRecord_5)
  also have "\<dots> = Return (Inl (if row ! 0 \<noteq> MPRN ?res then ErrMultipleMPRN (MPRN ?res) (row ! 0)
                        else ErrMultipleSerial (MeterSerialNumber ?res) (row ! 1)))"
    by (rule readData_mismatch[OF two pre' wfr diff'])
  finally show ?thesis unfolding HDF_rows by simp
qed

text \<open>
  C7. Take a file with the valid header and at least one data row. If \<^verbatim>\<open>HDF\<close> returns
  without error, every block it returns carries the meter identifier and the serial number
  of the first data row, and every later row carries the same two. And if a later row is
  the first to differ in one of them, the rows up to it being rows that \<^verbatim>\<open>parseLine\<close>
  accepts, \<^verbatim>\<open>HDF\<close> returns no block and the error that holds both conflicting values: the
  first row's identifier and the later row's, or, when the identifiers agree, the two serial
  numbers.
\<close>

theorem HDF_meter_identity:
  "(HDF pf pt (Fields headerFormat # Fields first # rest) = Return (rr, None) \<longrightarrow>
      (\<forall>s\<in>set rr. MPRN s = first ! 0 \<and> MeterSerialNumber s = first ! 1) \<and>
      (\<forall>fs. Fields fs \<in> set rest \<longrightarrow> fs ! 0 = first ! 0 \<and> fs ! 1 = first ! 1)) \<and>
   (\<forall>pre row post.
      rest = map Fields pre @ Fields row # post \<and>
      (\<forall>x\<in>set (first # pre @ [row]). wellFormedRow pf pt x) \<and>
      (\<forall>x\<in>set pre. x ! 0 = first ! 0 \<and> x ! 1 = first ! 1) \<and>
      (row ! 0 \<noteq> first ! 0 \<or> row ! 1 \<noteq> first ! 1) \<longrightarrow>
      HDF pf pt (Fields headerFormat # Fields first # rest) =
        Return ([], Some (if row ! 0 \<noteq> first ! 0 then ErrMultipleMPRN (first ! 0) (row ! 0)
                          else ErrMultipleSerial (first ! 1) (row ! 1))))"
  using HDF_success_ids[of pf pt first rest rr] HDF_mismatch[of rest _ _ _ first pf pt]
  by blast


lemma ireland_january_2023:
  "irelandTimezone 1673821800 = \<lparr>zName = ''GMT'', zOffset = 0, zStart = 1667091600, zEnd = 1679792400\<rparr>"
  "irelandTimezone 1673823600 = \<lparr>zName = ''GMT'', zOffset = 0, zStart = 1667091600, zEnd = 1679792400\<rparr>"
  "irelandTimezone 1673825400 = \<lparr>zName = ''GMT'', zOffset = 0, zStart = 1667091600, zEnd = 1679792400\<rparr>"
  "irelandTimezone 1673827200 = \<lparr>zName = ''GMT'', zOffset = 0, zStart = 1667091600, zEnd = 1679792400\<rparr>"
  by (simp_all add: irelandTimezone_def irelandZone_def civil_eval)

lemma parse_january:
  "parseInLocation l ''15-01-2023 23:30'' = Some (Date 2023 1 15 23 30 l)"
  "parseInLocation l ''15-01-2023 23:00'' = Some (Date 2023 1 15 23 0 l)"
  "parseInLocation l ''15-01-2023 22:30'' = Some (Date 2023 1 15 22 30 l)"
  by (simp_all add: parseInLocation_def digitVal_def daysIn_def isLeap_def)

lemma Date_january:
  "Date 2023 1 15 23 30 irelandTimezone = dublin 1673825400"
  "Date 2023 1 15 23 0 irelandTimezone = dublin 1673823600"
  "Date 2023 1 15 22 30 irelandTimezone = dublin 1673821800"
  by (simp_all add: Date_def resolveZone_def adjustZone_def daysFromCivil_def daysFromShifted_def
      doeOfDate_def ireland_january_2023 dublin_def)

lemma Zone_january:
  "Zone \<lparr>unixNano = 1673821800000000000, loc = irelandTimezone\<rparr> = (''GMT'', 0)"
  "Zone \<lparr>unixNano = 1673823600000000000, loc = irelandTimezone\<rparr> = (''GMT'', 0)"
  "Zone \<lparr>unixNano = 1673825400000000000, loc = irelandTimezone\<rparr> = (''GMT'', 0)"
  "Zone \<lparr>unixNano = 1673827200000000000, loc = irelandTimezone\<rparr> = (''GMT'', 0)"
  by (simp_all add: Zone_def unixSec_def ireland_january_2023)

lemma upt_3: "[0..<3] = [0, 1, 2]"
  by (simp add: upt_rec[of _ "numeral _"] upt_rec[of _ "Suc _"])

lemma readData_january:
  "readData exampleFloat (parseInLocation irelandTimezone) 5 1 (tl januaryFile) emptyResult =
     Return (Inr (series [(194 / 1000, dublin 1673825400), (157 / 1000, dublin 1673823600),
                          (111 / 1000, dublin 1673821800)]))"
  by (simp add: januaryFile_def dataRow_def csvRecord_def parseLine_def parse_january
      Date_january exampleFloat_def emptyResult_def series_def wantReadType_def)

lemma fixTimezone_january:
  "fixTimezone (series [(111 / 1000, dublin 1673821800), (157 / 1000, dublin 1673823600),
                        (194 / 1000, dublin 1673825400)]) =
     series [(111 / 1000, dublin 1673821800), (157 / 1000, dublin 1673823600),
             (194 / 1000, dublin 1673825400)]"
  by (simp add: fixTimezone_def series_def dublin_def upt_3 fixTimezoneAt_def Let_def
      Zone_january dur_simps)

lemma splitTimes_january:
  "splitTimes (series [(111 / 1000, dublin 1673821800), (157 / 1000, dublin 1673823600),
                       (194 / 1000, dublin 1673825400)]) =
     ([series [(111 / 1000, dublin 1673821800), (157 / 1000, dublin 1673823600),
               (194 / 1000, dublin 1673825400)]], None)"
  by (simp add: splitTimes_def series_def dublin_def shallowCopyResult_def isHalfSharp_def
      zeroTime_def unixToInternal_def IsZero_def Let_def Time_Minute_def Time_Second_def
      Time_Nanosecond_def localSec_def unixSec_def Zone_january dur_simps)

lemma HDF_january:
  "HDF exampleFloat (parseInLocation irelandTimezone) januaryFile =
     Return ([series [(111 / 1000, dublin 1673821800), (157 / 1000, dublin 1673823600),
                      (194 / 1000, dublin 1673825400)]], None)"
proof -
  have j: "januaryFile = Fields headerFormat # tl januaryFile" by (simp add: januaryFile_def)
  have r: "(series [(194 / 1000, dublin 1673825400), (157 / 1000, dublin 1673823600),
                          (111 / 1000, dublin 1673821800)])
             \<lparr>Reads := rev (Reads (series [(194 / 1000, dublin 1673825400),
                          (157 / 1000, dublin 1673823600), (111 / 1000, dublin 1673821800)]))\<rparr>
           = series [(111 / 1000, dublin 1673821800), (157 / 1000, dublin 1673823600),
                     (194 / 1000, dublin 1673825400)]"
    by (simp add: series_def)
  show ?thesis
    by (subst j) (simp only: HDF_rows readData_january outcome.case sum.case r
        fixTimezone_january splitTimes_january)
qed


lemma wellFormed_january:
  "wellFormedRow exampleFloat (parseInLocation irelandTimezone)
     [''123'', ''45'', ''0.194000'', wantReadType, ''15-01-2023 23:30'']"
  "wellFormedRow exampleFloat (parseInLocation irelandTimezone)
     [''321'', ''45'', ''0.157000'', wantReadType, ''15-01-2023 23:00'']"
  "wellFormedRow exampleFloat (parseInLocation irelandTimezone)
     [''123'', ''00'', ''0.157000'', wantReadType, ''15-01-2023 23:00'']"
  by (simp_all add: wellFormedRow_def exampleFloat_def parse_january)

theorem HDF_meter_identity_witness:
  "HDF exampleFloat (parseInLocation irelandTimezone) januaryFile =
     Return ([series [(111 / 1000, dublin 1673821800), (157 / 1000, dublin 1673823600),
                      (194 / 1000, dublin 1673825400)]], None) \<and>
   MPRN (series [(111 / 1000, dublin 1673821800), (157 / 1000, dublin 1673823600),
                 (194 / 1000, dublin 1673825400)]) = ''123'' \<and>
   MeterSerialNumber (series [(111 / 1000, dublin 1673821800), (157 / 1000, dublin 1673823600),
                 (194 / 1000, dublin 1673825400)]) = ''45'' \<and>
   wellFormedRow exampleFloat (parseInLocation irelandTimezone)
     [''123'', ''45'', ''0.194000'', wantReadType, ''15-01-2023 23:30''] \<and>
   wellFormedRow exampleFloat (parseInLocation irelandTimezone)
     [''321'', ''45'', ''0.157000'', wantReadType, ''15-01-2023 23:00''] \<and>
   HDF exampleFloat (parseInLocation irelandTimezone) differentMPRN =
     Return ([], Some (ErrMultipleMPRN ''123'' ''321'')) \<and>
   HDF exampleFloat (parseInLocation irelandTimezone) differentSerial =
     Return ([], Some (ErrMultipleSerial ''45'' ''00''))"
proof -
  let ?pf = exampleFloat and ?pt = "parseInLocation irelandTimezone"
  let ?first = "[''123'', ''45'', ''0.194000'', wantReadType, ''15-01-2023 23:30'']"
  let ?other = "[''321'', ''45'', ''0.157000'', wantReadType, ''15-01-2023 23:00'']"
  let ?serial = "[''123'', ''00'', ''0.157000'', wantReadType, ''15-01-2023 23:00'']"
  let ?jan = "series [(111 / 1000, dublin 1673821800), (157 / 1000, dublin 1673823600),
                      (194 / 1000, dublin 1673825400)]"
  have jf: "januaryFile = Fields headerFormat # Fields ?first # tl (tl januaryFile)"
    by (simp add: januaryFile_def dataRow_def)
  have "HDF ?pf ?pt (Fields headerFormat # Fields ?first # tl (tl januaryFile)) = Return ([?jan], None)"
    using HDF_january jf by simp
  with HDF_meter_identity[of ?pf ?pt ?first "tl (tl januaryFile)" "[?jan]"]
  have ids: "MPRN ?jan = ''123'' \<and> MeterSerialNumber ?jan = ''45''"
    by simp
  have m: "differentMPRN = Fields headerFormat # Fields ?first # [Fields ?other]"
    by (simp add: differentMPRN_def dataRow_def)
  from HDF_meter_identity[of ?pf ?pt ?first "[Fields ?other]" "[]"]
  have "[Fields ?other] = map Fields [] @ Fields ?other # [] \<and>
      (\<forall>x\<in>set (?first # [] @ [?other]). wellFormedRow ?pf ?pt x) \<and>
      (\<forall>x\<in>set []. x ! 0 = ?first ! 0 \<and> x ! 1 = ?first ! 1) \<and>
      (?other ! 0 \<noteq> ?first ! 0 \<or> ?other ! 1 \<noteq> ?first ! 1) \<longrightarrow>
      HDF ?pf ?pt (Fields headerFormat # Fields ?first # [Fields ?other]) =
        Return ([], Some (if ?other ! 0 \<noteq> ?first ! 0 then ErrMultipleMPRN (?first ! 0) (?other ! 0)
                          else ErrMultipleSerial (?first ! 1) (?other ! 1)))"
    by blast
  then have e1: "HDF ?pf ?pt differentMPRN = Return ([], Some (ErrMultipleMPRN ''123'' ''321''))"
    using wellFormed_january m by simp
  have s: "differentSerial = Fields headerFormat # Fields ?first # [Fields ?serial]"
    by (simp add: differentSerial_def dataRow_def)
  from HDF_meter_identity[of ?pf ?pt ?first "[Fields ?serial]" "[]"]
  have "[Fields ?serial] = map Fields [] @ Fields ?serial # [] \<and>
      (\<forall>x\<in>set (?first # [] @ [?serial]). wellFormedRow ?pf ?pt x) \<and>
      (\<forall>x\<in>set []. x ! 0 = ?first ! 0 \<and> x ! 1 = ?first ! 1) \<and>
      (?serial ! 0 \<noteq> ?first ! 0 \<or> ?serial ! 1 \<noteq> ?first ! 1) \<longrightarrow>
      HDF ?pf ?pt (Fields headerFormat # Fields ?first # [Fields ?serial]) =
        Return ([], Some (if ?serial ! 0 \<noteq> ?first ! 0 then ErrMultipleMPRN (?first ! 0) (?serial ! 0)
                          else ErrMultipleSerial (?first ! 1) (?serial ! 1)))"
    by blast
  then have e2: "HDF ?pf ?pt differentSerial = Return ([], Some (ErrMultipleSerial ''45'' ''00''))"
    using wellFormed_january s by simp
  from HDF_january ids wellFormed_january(1,2) e1 e2 show ?thesis by simp
qed


subsection \<open>The autumn file through HDF\<close>

text \<open>
  C2. The claim is that ingestion and disambiguation of the file with the local times 01:00,
  00:30, 00:00, 00:30 (newest first) of 29 October 2023 return the four readings 00:30 at
  the daylight-saving offset and 00:00, 00:30, 01:00 at the standard offset, which is also
  what the test "Leaving Daylight Saving time" of the repository expects of \<^verbatim>\<open>HDF\<close>. The
  code does not do so. Ingestion resolves the rows, in ascending file order, to 00:30 IST,
  00:00 IST, 00:30 IST and 01:00 GMT; \<^verbatim>\<open>fixTimezone\<close> looks only at the GMT reading and
  moves it to 00:00 UTC, so the two 00:30 entries stay one instant; \<^verbatim>\<open>splitTimes\<close> then
  meets 00:30 IST followed by 00:00 IST, and \<^verbatim>\<open>HDF\<close> returns the "data is not sorted"
  error beside the single block it had begun.
\<close>

theorem HDF_autumn_fails:
  "ingest exampleFloat (parseInLocation irelandTimezone) autumnFile = Return (Inr autumnParsed) \<and>
   map (\<lambda>r. fst (Zone (EndTime r))) (Reads autumnParsed) = [''IST'', ''IST'', ''IST'', ''GMT''] \<and>
   fixTimezone autumnParsed =
     series [(1 / 10, dublin 1698535800), (1 / 10, dublin 1698534000),
             (1 / 10, dublin 1698535800), (1 / 10, dublin 1698537600)] \<and>
   HDF exampleFloat (parseInLocation irelandTimezone) autumnFile =
     Return ([series [(1 / 10, dublin 1698535800)]],
             Some (ErrNotSorted (dublin 1698535800) (dublin 1698534000)))"
proof -
  have "map (\<lambda>r. fst (Zone (EndTime r))) (Reads autumnParsed) = [''IST'', ''IST'', ''IST'', ''GMT'']"
    by (simp add: autumnParsed_def series_def dublin_def Zone_autumn)
  then show ?thesis
    by (simp add: HDF_ingest ingest_autumn fixTimezone_autumn splitTimes_autumn)
qed

subsection \<open>The autumn series through fixTimezone\<close>

text \<open>
  C1. The claim is that the pass looks at exactly the readings resolved to the
  daylight-saving zone and moves such a reading one hour later when the reading two places
  earlier is the same instant or, failing that, when the moved instant is one hour before
  the reading two places later. On the series parsed from the autumn file (00:30 IST,
  00:00 IST, 00:30 IST, 01:00 GMT) that pass moves the second and the third reading and
  gives the instants 23:30, 00:00, 00:30 and 01:00 UTC, the readings the repository's test
  expects. \<^verbatim>\<open>fixTimezone\<close> skips the three IST readings, since it passes over every reading
  whose zone is not \<^verbatim>\<open>GMT\<close>, and moves the GMT reading instead, to 00:00 UTC.
\<close>

theorem fixTimezone_autumn_diverges:
  "map (\<lambda>r. fst (Zone (EndTime r))) (Reads autumnParsed) = [''IST'', ''IST'', ''IST'', ''GMT''] \<and>
   disambiguate_spec autumnParsed =
     series [(1 / 10, dublin 1698535800), (1 / 10, dublin 1698537600),
             (1 / 10, dublin 1698539400), (1 / 10, dublin 1698541200)] \<and>
   fixTimezone autumnParsed =
     series [(1 / 10, dublin 1698535800), (1 / 10, dublin 1698534000),
             (1 / 10, dublin 1698535800), (1 / 10, dublin 1698537600)]"
proof -
  have "map (\<lambda>r. fst (Zone (EndTime r))) (Reads autumnParsed) = [''IST'', ''IST'', ''IST'', ''GMT'']"
    by (simp add: autumnParsed_def series_def dublin_def Zone_autumn)
  then show ?thesis
    by (simp add: spec_autumn fixTimezone_autumn)
qed

end
